theory Spec2Isabelle
  imports Main "HOL-Library.Word"
begin

unbundle bit_operations_syntax

section \<open>Bytes, buffers and errors\<close>

text \<open>
  A Node \<open>Buffer\<close> is a list of bytes.  JavaScript numbers that hold unsigned 32-bit
  fields, offsets and lengths are natural numbers; signed quantities are integers.
  Every \<open>throw\<close> of the modelled code is a constructor of \<open>error\<close>: \<open>RangeError\<close> is the
  JavaScript class of that name (thrown by the byte reader), every other constructor is a
  plain \<open>Error\<close> with the message given in the comment.
\<close>

type_synonym byte = "8 word"
type_synonym Buffer = "byte list"

datatype error =
    RangeError
  | InvalidIndexEntrySize      \<comment> \<open>\<open>Invalid index entry size\<close>\<close>
  | InvalidBLTESignature       \<comment> \<open>\<open>Invalid BLTE signature: ...\<close>\<close>
  | InvalidBLTEHeaderSize      \<comment> \<open>\<open>Invalid BLTE header size\<close>\<close>
  | InvalidBLTEFormat nat      \<comment> \<open>\<open>Invalid BLTE format: ...\<close>\<close>
  | InvalidBLTEBlocksCount     \<comment> \<open>\<open>Invalid BLTE blocks count\<close>\<close>
  | BlockNotFound              \<comment> \<open>\<open>Block not found\<close>\<close>
  | UnknownEncoding Buffer     \<comment> \<open>\<open>Unknown encoding: ...\<close>\<close>
  | UnknownLZ4Version nat      \<comment> \<open>\<open>Unknown LZ4 version: ...\<close>\<close>
  | NotImplemented             \<comment> \<open>\<open>Not implemented\<close>, thrown for an encrypted block\<close>
  | CodecError                 \<comment> \<open>whatever the zlib or lz4 library throws\<close>
  | InsufficientBlockHeader    \<comment> \<open>\<open>Insufficient data for block header\<close>\<close>
  | EncodingTableNotLoaded     \<comment> \<open>\<open>Encoding Table not loaded\<close>\<close>
  | ErrorGettingDataBlock string \<comment> \<open>\<open>Error getting data block for ...\<close>\<close>
  | TypeError                  \<comment> \<open>the JavaScript class, thrown when a call target is not a function\<close>

section \<open>The byte reader (utils/buffer.ts)\<close>

record BufferReader =
  buf :: Buffer
  offset :: nat
  bitOffset :: nat

definition new_BufferReader :: "Buffer \<Rightarrow> BufferReader" where
  "new_BufferReader b = \<lparr>buf = b, offset = 0, bitOffset = 0\<rparr>"

text \<open>
  A read either returns a value or throws; in both cases the reader keeps the position it
  had reached, so a read maps the reader to a result and the reader after it.
\<close>

type_synonym 'a reading = "BufferReader \<Rightarrow> (error + 'a) \<times> BufferReader"

definition alignToByte :: "BufferReader \<Rightarrow> BufferReader" where
  "alignToByte rd =
     (if bitOffset rd \<noteq> 0 then rd\<lparr>bitOffset := 0, offset := offset rd + 1\<rparr> else rd)"

text \<open>
  The byte-oriented reads all have one shape: \<open>alignToByte\<close>, \<open>ensureAvailable n\<close>
  (a \<open>RangeError\<close> when \<open>offset + n > buf.length\<close>), decode the \<open>n\<close> bytes at the
  offset, advance by \<open>n\<close>.
\<close>

definition readBytes :: "nat \<Rightarrow> (Buffer \<Rightarrow> 'a) \<Rightarrow> 'a reading" where
  "readBytes n dec rd0 =
     (let rd = alignToByte rd0 in
      if offset rd + n > length (buf rd) then (Inl RangeError, rd)
      else (Inr (dec (take n (drop (offset rd) (buf rd)))), rd\<lparr>offset := offset rd + n\<rparr>))"

definition be_nat :: "Buffer \<Rightarrow> nat" where
  "be_nat bs = foldl (\<lambda>acc b. acc * 256 + unat b) 0 bs"

definition le_nat :: "Buffer \<Rightarrow> nat" where
  "le_nat bs = be_nat (rev bs)"

definition hex_digit :: "nat \<Rightarrow> char" where
  "hex_digit n = ''0123456789abcdef'' ! n"

definition hex :: "Buffer \<Rightarrow> string" where
  "hex bs = concat (map (\<lambda>b. [hex_digit (unat b div 16), hex_digit (unat b mod 16)]) bs)"

definition uint8 :: "nat reading" where
  "uint8 = readBytes 1 be_nat"

definition uint32be :: "nat reading" where
  "uint32be = readBytes 4 be_nat"

definition uint32le :: "nat reading" where
  "uint32le = readBytes 4 le_nat"

definition uint64be :: "nat reading" where
  "uint64be = readBytes 8 be_nat"

definition uint64le :: "nat reading" where
  "uint64le = readBytes 8 le_nat"

text \<open>\<open>readInt32LE\<close>: the unsigned value read as two's complement.\<close>

definition int32le :: "int reading" where
  "int32le = readBytes 4 (\<lambda>bs. if le_nat bs \<ge> 2 ^ 31 then int (le_nat bs) - 2 ^ 32
                                else int (le_nat bs))"

text \<open>\<open>string(n, 'hex')\<close>: the lower-case hexadecimal text of the bytes.\<close>

definition string_hex :: "nat \<Rightarrow> string reading" where
  "string_hex n = readBytes n hex"

text \<open>
  \<open>string(n)\<close> decodes UTF-8.  The code only compares such strings with ASCII literals,
  and a UTF-8 decoding equals an ASCII literal exactly when the bytes are the literal's
  character codes, so the model keeps the bytes and compares them with \<open>ascii\<close> of the
  literal.
\<close>

definition string_utf8 :: "nat \<Rightarrow> Buffer reading" where
  "string_utf8 n = readBytes n (\<lambda>bs. bs)"

definition ascii :: "string \<Rightarrow> Buffer" where
  "ascii cs = map (\<lambda>c. of_char c) cs"

definition seek :: "nat \<Rightarrow> unit reading" where
  "seek position rd =
     (if position > length (buf rd) then (Inl RangeError, rd)
      else (Inr (), rd\<lparr>offset := position, bitOffset := 0\<rparr>))"

definition skip :: "nat \<Rightarrow> unit reading" where
  "skip bytes rd = seek (offset rd + bytes) rd"

definition eof :: "BufferReader \<Rightarrow> bool" where
  "eof rd = (offset rd \<ge> length (buf rd))"

definition remaining :: "BufferReader \<Rightarrow> int" where
  "remaining rd = int (length (buf rd)) - int (offset rd)"

text \<open>Sequencing of reads: the first throw ends the sequence.\<close>

definition bindR :: "'a reading \<Rightarrow> ('a \<Rightarrow> 'b reading) \<Rightarrow> 'b reading" where
  "bindR m f rd = (case m rd of (Inl e, rd') \<Rightarrow> (Inl e, rd') | (Inr v, rd') \<Rightarrow> f v rd')"

definition returnR :: "'a \<Rightarrow> 'a reading" where
  "returnR v rd = (Inr v, rd)"

definition throwR :: "error \<Rightarrow> 'a reading" where
  "throwR e rd = (Inl e, rd)"

text \<open>
  \<open>uint24be\<close> checks for three bytes and then calls \<open>uint8\<close> three times;
  \<open>(b0 << 16) | (b1 << 8) | b2\<close> on three bytes is their big-endian value.
\<close>

definition uint24be :: "nat reading" where
  "uint24be rd0 =
     (let rd = alignToByte rd0 in
      if offset rd + 3 > length (buf rd) then (Inl RangeError, rd)
      else bindR uint8 (\<lambda>b0. bindR uint8 (\<lambda>b1. bindR uint8 (\<lambda>b2.
             returnR (b0 * 65536 + b1 * 256 + b2)))) rd)"

text \<open>
  \<open>raw(length)\<close>.  The length is an integer, because \<open>getBlockData\<close> passes
  \<open>compressedSize - 1\<close>, which is \<open>-1\<close> for a block of compressed size 0: then
  \<open>ensureAvailable\<close> passes, \<open>subarray(offset, offset - 1)\<close> is empty and the offset
  goes back by one.  The call sites have \<open>offset + length \<ge> 0\<close>; below that JavaScript's
  \<open>subarray\<close> would count from the end of the buffer, which the model does not follow.
  \<open>raw()\<close> without a length is \<open>raw(remaining)\<close>.
\<close>

definition raw :: "int \<Rightarrow> Buffer reading" where
  "raw len rd0 =
     (let rd = alignToByte rd0 in
      if int (offset rd) + len > int (length (buf rd)) then (Inl RangeError, rd)
      else (Inr (take (nat len) (drop (offset rd) (buf rd))),
            rd\<lparr>offset := nat (int (offset rd) + len)\<rparr>))"

definition raw_rest :: "Buffer reading" where
  "raw_rest rd = raw (remaining rd) rd"

section \<open>The archive index parser (indices.ts)\<close>

datatype IndexSource = Archive | Patch

record IndexEntry =
  eKey :: string
  size_ie :: nat
  offset_ie :: nat
  archiveHash :: string
  source :: IndexSource

text \<open>
  The body of the \<open>try\<close> block of one loop iteration: three reads, the size check, and
  the entry that \<open>output.push\<close> appends.  The reader is returned as the reads left it,
  also when something was thrown.
\<close>

definition read_entry :: "string \<Rightarrow> IndexSource \<Rightarrow> IndexEntry reading" where
  "read_entry h s rd =
     (case string_hex 16 rd of (Inl e, rd1) \<Rightarrow> (Inl e, rd1) | (Inr k, rd1) \<Rightarrow>
      (case uint32be rd1 of (Inl e, rd2) \<Rightarrow> (Inl e, rd2) | (Inr sz, rd2) \<Rightarrow>
      (case uint32be rd2 of (Inl e, rd3) \<Rightarrow> (Inl e, rd3) | (Inr off, rd3) \<Rightarrow>
        (let entry = \<lparr>eKey = k, size_ie = sz, offset_ie = off, archiveHash = h, source = s\<rparr>
         in if int (size_ie entry) < 0 \<or> size_ie entry > 2 * 1024 * 1024
            then (Inl InvalidIndexEntrySize, rd3)
            else (Inr entry, rd3)))))"

text \<open>
  The \<open>while (!reader.eof())\<close> loop with its \<open>catch\<close>: a \<open>RangeError\<close> leaves the
  loop, any other error is swallowed and the loop goes on.  The loop is a partial
  function: \<open>None\<close> would mean that it never returns.
\<close>

partial_function (option) index_while ::
  "string \<Rightarrow> IndexSource \<Rightarrow> BufferReader \<Rightarrow> IndexEntry list \<Rightarrow> IndexEntry list option" where
  "index_while h s rd output =
     (if eof rd then Some output
      else (case read_entry h s rd of
              (Inr entry, rd') \<Rightarrow> index_while h s rd' (output @ [entry])
            | (Inl e, rd') \<Rightarrow>
                if e = RangeError then Some output else index_while h s rd' output))"

definition parseIndexEntry :: "Buffer \<Rightarrow> string \<Rightarrow> IndexSource \<Rightarrow> IndexEntry list option" where
  "parseIndexEntry buffer h s =
     (let pageSize = 4096;
          isPageAligned = (length buffer mod pageSize = 0);
          buffer' = (if \<not> isPageAligned
                     then (let pagesCount = (length buffer + pageSize - 1) div pageSize
                           in take ((pagesCount - 1) * pageSize) buffer)
                     else buffer)
      in index_while h s (new_BufferReader buffer') [])"

subsection \<open>A closed form of the loop\<close>

text \<open>
  The entry that the 24 bytes at the head of \<open>bs\<close> encode, and the entries that the loop
  emits from a data region: one per complete 24-byte record whose size passes the check.
\<close>

definition entry_at :: "string \<Rightarrow> IndexSource \<Rightarrow> Buffer \<Rightarrow> IndexEntry" where
  "entry_at h s bs =
     \<lparr>eKey = hex (take 16 bs), size_ie = be_nat (take 4 (drop 16 bs)),
      offset_ie = be_nat (take 4 (drop 20 bs)), archiveHash = h, source = s\<rparr>"

function entries_from :: "string \<Rightarrow> IndexSource \<Rightarrow> Buffer \<Rightarrow> IndexEntry list" where
  "entries_from h s bs =
     (if length bs < 24 then []
      else (if size_ie (entry_at h s bs) > 2 * 1024 * 1024 then [] else [entry_at h s bs])
           @ entries_from h s (drop 24 bs))"
  by pat_completeness auto
termination
  by (relation "measure (\<lambda>(h, s, bs). length bs)") auto

declare entries_from.simps [simp del]

section \<open>The BLTE decoder (blte.ts)\<close>

record BLTEBlock =
  compressedSize :: nat
  decompressedSize :: nat
  hash :: string
  uncompressedHash :: "string option"

record BLTEReader =
  buffer :: BufferReader
  blocksCount :: nat
  headerSize :: nat
  blocks :: "BLTEBlock list"

text \<open>
  The zlib and lz4 libraries are outside the repository: \<open>zlib.unzipSync\<close> and
  \<open>lz4.decode\<close> are parameters of the decoder, each returning the decompressed bytes
  or throwing.
\<close>

record codecs =
  unzipSync :: "Buffer \<Rightarrow> error + Buffer"
  lz4_decode :: "Buffer \<Rightarrow> error + Buffer"

text \<open>
  \<open>parseHeaderBlock\<close> reads one entry of the block table and pushes it;
  \<open>parseHeaderBlocks\<close> is the \<open>for\<close> loop of \<open>parseHeader\<close> over \<open>blocksCount\<close>
  entries, and \<open>new_BLTEReader\<close> is the constructor: it fails when \<open>parseHeader\<close> throws.
\<close>

definition parseHeaderBlock :: "nat \<Rightarrow> BLTEBlock reading" where
  "parseHeaderBlock format =
     bindR uint32be (\<lambda>cs. bindR uint32be (\<lambda>ds. bindR (string_hex 16) (\<lambda>h.
       if format = 0x10
       then bindR (string_hex 16) (\<lambda>uh.
              returnR \<lparr>compressedSize = cs, decompressedSize = ds, hash = h,
                       uncompressedHash = Some uh\<rparr>)
       else returnR \<lparr>compressedSize = cs, decompressedSize = ds, hash = h,
                     uncompressedHash = None\<rparr>)))"

fun parseHeaderBlocks :: "nat \<Rightarrow> nat \<Rightarrow> BLTEBlock list \<Rightarrow> (BLTEBlock list) reading" where
  "parseHeaderBlocks format 0 bs = returnR bs"
| "parseHeaderBlocks format (Suc n) bs =
     bindR (parseHeaderBlock format) (\<lambda>b. parseHeaderBlocks format n (bs @ [b]))"

definition parseHeader :: "(nat \<times> nat \<times> BLTEBlock list) reading" where
  "parseHeader =
     bindR (string_utf8 4) (\<lambda>signature.
       if signature \<noteq> ascii ''BLTE'' then throwR InvalidBLTESignature
       else bindR uint32be (\<lambda>hs.
         if hs = 0 then throwR InvalidBLTEHeaderSize
         else bindR uint8 (\<lambda>format.
           if format \<noteq> 0xf \<and> format \<noteq> 0x10 then throwR (InvalidBLTEFormat format)
           else bindR uint24be (\<lambda>count.
             if count = 0 then throwR InvalidBLTEBlocksCount
             else bindR (parseHeaderBlocks format count []) (\<lambda>bs.
                    returnR (hs, count, bs))))))"

definition new_BLTEReader :: "Buffer \<Rightarrow> error + BLTEReader" where
  "new_BLTEReader b =
     (case parseHeader (new_BufferReader b) of
        (Inl e, rd) \<Rightarrow> Inl e
      | (Inr (hs, count, bs), rd) \<Rightarrow>
          Inr \<lparr>buffer = rd, blocksCount = count, headerSize = hs, blocks = bs\<rparr>)"

text \<open>
  \<open>calcBlockOffset(block)\<close> finds the block with \<open>indexOf\<close>, which compares object
  references; \<open>getBlockData\<close> passes the object it took from \<open>blocks[arg]\<close>, each block
  object is pushed once, so the index found is \<open>arg\<close> and \<open>Block not found\<close> cannot be
  thrown there.  The offset is the header size plus the compressed sizes of the blocks before.
  The sum is a sum of JavaScript numbers, which is exact below \<open>2^53\<close>: a rounded sum is
  at least \<open>2^53\<close>, beyond the end of any buffer, so \<open>seek\<close> rejects it as it rejects the
  exact sum, and every offset that \<open>seek\<close> accepts is exact.
\<close>

definition calcBlockOffset :: "BLTEReader \<Rightarrow> nat \<Rightarrow> nat" where
  "calcBlockOffset r idx =
     foldl (\<lambda>acc block. acc + compressedSize block) (headerSize r) (take idx (blocks r))"

text \<open>
  The reads of \<open>getBlockData\<close>: \<open>seek(offset)\<close>, the one-byte codec tag, and the
  payload \<open>raw(compressedSize - 1)\<close>.  The reader of a \<open>BLTEReader\<close> is used for nothing
  else after construction and \<open>seek\<close> overwrites both its offset and its bit offset, so
  the position that one call leaves behind does not influence the next call; the model
  starts each call from the reader as the constructor left it.
\<close>

definition read_block :: "BLTEReader \<Rightarrow> nat \<Rightarrow> error + (Buffer \<times> Buffer)" where
  "read_block r idx =
     (case bindR (seek (calcBlockOffset r idx)) (\<lambda>_.
             bindR (string_utf8 1) (\<lambda>encoding.
             bindR (raw (int (compressedSize (blocks r ! idx)) - 1)) (\<lambda>data.
               returnR (encoding, data)))) (buffer r) of
        (Inl e, rd) \<Rightarrow> Inl e
      | (Inr x, rd) \<Rightarrow> Inr x)"

definition processZlibBlock :: "codecs \<Rightarrow> Buffer \<Rightarrow> error + Buffer" where
  "processZlibBlock cd data =
     (case raw_rest (new_BufferReader data) of
        (Inl e, rd) \<Rightarrow> Inl e
      | (Inr payload, rd) \<Rightarrow> unzipSync cd payload)"

definition processLz4Block :: "codecs \<Rightarrow> Buffer \<Rightarrow> error + Buffer" where
  "processLz4Block cd data =
     (case bindR uint8 (\<lambda>version.
             if version \<noteq> 1 then throwR (UnknownLZ4Version version)
             else bindR uint64be (\<lambda>size. bindR uint8 (\<lambda>blockShift. raw_rest)))
            (new_BufferReader data) of
        (Inl e, rd) \<Rightarrow> Inl e
      | (Inr payload, rd) \<Rightarrow> lz4_decode cd payload)"

definition processEncryptedBlock :: "Buffer \<Rightarrow> error + Buffer" where
  "processEncryptedBlock data = Inl NotImplemented"

text \<open>
  \<open>decode_BLTE cd b\<close> is \<open>new BLTEReader(b).getBlocksData()\<close>;
  \<open>getBlocksData_from\<close> is the loop of \<open>getBlocksData\<close> from block \<open>i\<close> on, with the
  bytes collected so far; \<open>getBlockData\<close> is the overload that takes an index.  A block
  with tag \<open>F\<close> holds a nested container, which makes the three functions mutually
  recursive.
\<close>

function decode_BLTE :: "codecs \<Rightarrow> Buffer \<Rightarrow> error + Buffer"
  and getBlocksData_from :: "codecs \<Rightarrow> BLTEReader \<Rightarrow> nat \<Rightarrow> Buffer \<Rightarrow> error + Buffer"
  and getBlockData :: "codecs \<Rightarrow> BLTEReader \<Rightarrow> nat \<Rightarrow> error + Buffer"
where
  "decode_BLTE cd b =
     (case new_BLTEReader b of
        Inl e \<Rightarrow> Inl e
      | Inr r \<Rightarrow> getBlocksData_from cd r 0 [])"
| "getBlocksData_from cd r i resultBuffer =
     (if i < length (blocks r)
      then (case getBlockData cd r i of
              Inl e \<Rightarrow> Inl e
            | Inr data \<Rightarrow> getBlocksData_from cd r (Suc i) (resultBuffer @ data))
      else Inr resultBuffer)"
| "getBlockData cd r arg =
     (if \<not> arg < length (blocks r) then Inl BlockNotFound
      else (case read_block r arg of
              Inl e \<Rightarrow> Inl e
            | Inr (encoding, data) \<Rightarrow>
                if encoding = ascii ''N'' then Inr data
                else if encoding = ascii ''Z'' then processZlibBlock cd data
                else if encoding = ascii ''4'' then processLz4Block cd data
                else if encoding = ascii ''F'' then decode_BLTE cd data
                else if encoding = ascii ''E'' then processEncryptedBlock data
                else Inl (UnknownEncoding encoding)))"
  by pat_completeness auto

definition getBlocksData :: "codecs \<Rightarrow> BLTEReader \<Rightarrow> error + Buffer" where
  "getBlocksData cd r = getBlocksData_from cd r 0 []"

text \<open>A decoder environment in which both libraries reject every input.\<close>

definition no_codecs :: codecs where
  "no_codecs = \<lparr>unzipSync = (\<lambda>_. Inl CodecError), lz4_decode = (\<lambda>_. Inl CodecError)\<rparr>"

section \<open>The root manifest (root.ts)\<close>

record Locale =
  enUS :: bool
  koKR :: bool
  frFR :: bool
  deDE :: bool
  zhCN :: bool
  esES :: bool
  zhTW :: bool
  enGB :: bool
  enCN :: bool
  enTW :: bool
  esMX :: bool
  ruRU :: bool
  ptBR :: bool
  itIT :: bool
  ptPT :: bool
  plPL :: bool

record RootEntry =
  fileDataId :: int
  contentKey :: string
  nameHash :: "nat option"
  localeFlags :: Locale
  contentFlags :: int
  normalizedPath :: "string option"
  scopes :: "string list option"

text \<open>
  \<open>a & b\<close> used as a condition: both operands are converted to 32-bit integers and the
  result is truthy when some bit is set in both.
\<close>

definition flag_set :: "int \<Rightarrow> nat \<Rightarrow> bool" where
  "flag_set v m = ((word_of_int v :: 32 word) AND word_of_nat m \<noteq> 0)"

text \<open>
  \<open>getLocales\<close> for a number (the MFST variant) tests the bits of the \<open>LocaleFlags\<close>
  enumeration of types/tact.ts; \<open>plPL\<close> has no bit there and stays \<open>false\<close>.
\<close>

definition getLocales_number :: "nat \<Rightarrow> Locale" where
  "getLocales_number localeFlag =
     \<lparr>enUS = flag_set (int localeFlag) 0x2, koKR = flag_set (int localeFlag) 0x4,
      frFR = flag_set (int localeFlag) 0x10, deDE = flag_set (int localeFlag) 0x20,
      zhCN = flag_set (int localeFlag) 0x40, esES = flag_set (int localeFlag) 0x80,
      zhTW = flag_set (int localeFlag) 0x100, enGB = flag_set (int localeFlag) 0x200,
      enCN = flag_set (int localeFlag) 0x400, enTW = flag_set (int localeFlag) 0x800,
      esMX = flag_set (int localeFlag) 0x1000, ruRU = flag_set (int localeFlag) 0x2000,
      ptBR = flag_set (int localeFlag) 0x4000, itIT = flag_set (int localeFlag) 0x8000,
      ptPT = flag_set (int localeFlag) 0x10000, plPL = False\<rparr>"

text \<open>
  Text is modelled as a list of 8-bit characters, which covers manifests and queries in
  ASCII; there \<open>trim\<close> and the regular expression class \<open>\s\<close> remove tab, line
  feed, vertical tab, form feed, carriage return and space, and \<open>toLowerCase\<close> maps
  \<open>A\<close>..\<open>Z\<close> to \<open>a\<close>..\<open>z\<close>.

  \<open>getLocales\<close> for a string (the War3 variant) first applies
  \<open>replace(/-\s_/, '')\<close>, which deletes the first occurrence of a dash, a white-space
  character and an underscore in a row, and then sets the field whose name the result is.
\<close>

definition is_space :: "char \<Rightarrow> bool" where
  "is_space c = (c \<in> set [CHR 0x09, CHR 0x0A, CHR 0x0B, CHR 0x0C, CHR 0x0D, CHR 0x20])"

fun replace_dash_space_underscore :: "string \<Rightarrow> string" where
  "replace_dash_space_underscore (a # b # c # rest) =
     (if a = CHR ''-'' \<and> is_space b \<and> c = CHR ''_'' then rest
      else a # replace_dash_space_underscore (b # c # rest))"
| "replace_dash_space_underscore cs = cs"

definition getLocales_string :: "string \<Rightarrow> Locale" where
  "getLocales_string localeFlag =
     (let prepared = replace_dash_space_underscore localeFlag in
      \<lparr>enUS = (prepared = ''enUS''), koKR = (prepared = ''koKR''), frFR = (prepared = ''frFR''),
       deDE = (prepared = ''deDE''), zhCN = (prepared = ''zhCN''), esES = (prepared = ''esES''),
       zhTW = (prepared = ''zhTW''), enGB = (prepared = ''enGB''), enCN = (prepared = ''enCN''),
       enTW = (prepared = ''enTW''), esMX = (prepared = ''esMX''), ruRU = (prepared = ''ruRU''),
       ptBR = (prepared = ''ptBR''), itIT = (prepared = ''itIT''), ptPT = (prepared = ''ptPT''),
       plPL = (prepared = ''plPL'')\<rparr>)"

text \<open>\<open>for (i < n) array.push(reader.read())\<close>: \<open>n\<close> reads in a row.\<close>

fun read_n :: "nat \<Rightarrow> 'a reading \<Rightarrow> 'a list \<Rightarrow> ('a list) reading" where
  "read_n 0 m acc = returnR acc"
| "read_n (Suc n) m acc = bindR m (\<lambda>v. read_n n m (acc @ [v]))"

text \<open>
  \<open>parseBlock\<close> has two halves.  The first reads the block: the record count, the
  flags and locale in the order of the version (for version 2 the content flags are
  \<open>unk1 | unk2 | (unk3 << 17)\<close>, a signed 32-bit value), and the arrays of deltas
  (signed 32-bit little-endian), content keys and, unless the block has the
  \<open>NoNameHash\<close> flag in a manifest that allows unnamed files, name hashes.
\<close>

record BlockArrays =
  numRecords :: nat
  locale_b :: nat
  contentFlags_b :: int
  fileDataIdDeltas :: "int list"
  contentKeys :: "string list"
  hasNameHashes :: bool
  nameHashes :: "nat list"

definition readBlockArrays :: "nat \<Rightarrow> bool \<Rightarrow> BlockArrays reading" where
  "readBlockArrays version allowNonNamedFiles rd =
     (if remaining rd < 8 then (Inl InsufficientBlockHeader, rd)
      else bindR uint32le (\<lambda>n.
        bindR (if version = 2
               then bindR uint32le (\<lambda>loc. bindR uint32le (\<lambda>unk1. bindR uint32le (\<lambda>unk2.
                      bindR uint8 (\<lambda>unk3.
                        returnR (loc, sint ((word_of_nat unk1 :: 32 word) OR word_of_nat unk2
                                          OR push_bit 17 (word_of_nat unk3)))))))
               else bindR uint32le (\<lambda>cf. bindR uint32le (\<lambda>loc. returnR (loc, int cf))))
          (\<lambda>(loc, cf).
            bindR (read_n n int32le []) (\<lambda>deltas.
            bindR (read_n n (string_hex 16) []) (\<lambda>keys.
              let hasNames = \<not> (allowNonNamedFiles \<and> flag_set cf 0x10000000) in
              bindR (if hasNames then read_n n uint64le [] else returnR []) (\<lambda>hashes.
                returnR \<lparr>numRecords = n, locale_b = loc, contentFlags_b = cf,
                         fileDataIdDeltas = deltas, contentKeys = keys,
                         hasNameHashes = hasNames, nameHashes = hashes\<rparr>))))) rd)"

text \<open>
  JavaScript numbers are IEEE 754 doubles.  The sum of two integer-valued numbers is the
  exact sum rounded to the nearest double, ties to the even significand: exact up to
  \<open>2^53\<close> in magnitude, and above that a multiple of the unit in the last place, which
  \<open>ulp_of\<close> computes (the power of two that leaves a 53-bit quotient).  The magnitudes
  that occur stay far below the overflow threshold of doubles.
\<close>

function ulp_of :: "nat \<Rightarrow> nat" where
  "ulp_of m = (if m < 2 ^ 53 then 1 else 2 * ulp_of (m div 2))"
  by pat_completeness auto
termination
  by (relation "measure (\<lambda>m. m)") auto

declare ulp_of.simps [simp del]

definition round_double :: "int \<Rightarrow> int" where
  "round_double x =
     (let m = nat \<bar>x\<bar>; u = ulp_of m; q = m div u; r = m mod u;
          q' = (if 2 * r < u \<or> (2 * r = u \<and> even q) then q else q + 1)
      in sgn x * int (q' * u))"

definition js_add :: "int \<Rightarrow> int \<Rightarrow> int" where
  "js_add a b = round_double (a + b)"

text \<open>
  The second half is the loop that rebuilds the file data ids: \<open>block_entries k i current a\<close>
  runs the iterations \<open>i, ..., i + k - 1\<close>, with \<open>current\<close> the value of
  \<open>currentFileDataId\<close> before iteration \<open>i\<close>.  \<open>currentFileDataId + 1 + delta\<close> is two
  additions of numbers, left to right.  After the reads succeeded all arrays have
  \<open>numRecords\<close> elements, so \<open>No file delta found\<close> cannot be thrown.
\<close>

fun block_entries :: "nat \<Rightarrow> nat \<Rightarrow> int \<Rightarrow> BlockArrays \<Rightarrow> RootEntry list" where
  "block_entries 0 i currentFileDataId a = []"
| "block_entries (Suc k) i currentFileDataId a =
     (let delta = fileDataIdDeltas a ! i;
          current = (if i = 0 then delta else js_add (js_add currentFileDataId 1) delta)
      in \<lparr>fileDataId = current, contentKey = contentKeys a ! i,
           nameHash = (if hasNameHashes a then Some (nameHashes a ! i) else None),
           localeFlags = getLocales_number (locale_b a), contentFlags = contentFlags_b a,
           normalizedPath = None, scopes = None\<rparr>
         # block_entries k (Suc i) current a)"

definition parseBlock :: "nat \<Rightarrow> bool \<Rightarrow> (RootEntry list) reading" where
  "parseBlock version allowNonNamedFiles =
     bindR (readBlockArrays version allowNonNamedFiles)
       (\<lambda>a. returnR (block_entries (numRecords a) 0 0 a))"

text \<open>
  \<open>hashString\<close>: \<open>hash = (hash << 5) - hash + char; hash = hash & hash\<close> keeps a signed
  32-bit value, the result is its absolute value.
\<close>

definition hashString :: "string \<Rightarrow> int" where
  "hashString str =
     \<bar>sint (foldl (\<lambda>hash c. push_bit 5 hash - hash + of_char c) (0 :: 32 word) str)\<bar>"

text \<open>
  \<open>s.split(d)\<close> for a one-character separator, and \<open>text.split('\r\n')\<close>; \<open>cur\<close> is
  the piece being collected.
\<close>

fun split_char :: "char \<Rightarrow> string \<Rightarrow> string \<Rightarrow> string list" where
  "split_char d cur [] = [cur]"
| "split_char d cur (c # cs) =
     (if c = d then cur # split_char d [] cs else split_char d (cur @ [c]) cs)"

fun split_crlf :: "string \<Rightarrow> string \<Rightarrow> string list" where
  "split_crlf cur (a # b # rest) =
     (if a = CHR 0x0D \<and> b = CHR 0x0A then cur # split_crlf [] rest
      else split_crlf (cur @ [a]) (b # rest))"
| "split_crlf cur [a] = [cur @ [a]]"
| "split_crlf cur [] = [cur]"

definition trim :: "string \<Rightarrow> string" where
  "trim s = dropWhile is_space (rev (dropWhile is_space (rev s)))"

definition lower_char :: "char \<Rightarrow> char" where
  "lower_char c =
     (case map_of (zip ''ABCDEFGHIJKLMNOPQRSTUVWXYZ'' ''abcdefghijklmnopqrstuvwxyz'') c of
        Some l \<Rightarrow> l
      | None \<Rightarrow> c)"

definition toLowerCase :: "string \<Rightarrow> string" where
  "toLowerCase s = map lower_char s"

text \<open>
  One iteration of the loop of \<open>parseWar3\<close>: \<open>None\<close> when the line is skipped
  (fewer than two parts, or the throw for a missing eKey, which the \<open>catch\<close> swallows),
  else the entry that is pushed.  \<open>parts[0] || ''\<close> is \<open>parts[0]\<close>, and
  \<open>parts[2] || ''\<close> is the empty string when there is no third part.
\<close>

definition parseWar3_line :: "string \<Rightarrow> RootEntry option" where
  "parseWar3_line line =
     (let parts = split_char CHR ''|'' [] line in
      if length parts < 2 then None
      else
        (let filePath = parts ! 0;
             eKey = parts ! 1;
             locale = (if 2 < length parts then parts ! 2 else [])
         in if eKey = [] then None
            else Some \<lparr>fileDataId = hashString filePath, contentKey = eKey,
                        nameHash = Some (nat (hashString filePath)),
                        localeFlags = getLocales_string locale, contentFlags = 0,
                        normalizedPath = Some (toLowerCase filePath),
                        scopes = Some (butlast (split_char CHR '':'' [] filePath))\<rparr>))"

text \<open>
  \<open>parseWar3\<close> on the decoded text after the magic: the lines that are not blank, each
  contributing its entry unless it is skipped.
\<close>

definition parseWar3 :: "string \<Rightarrow> RootEntry list" where
  "parseWar3 text =
     List.map_filter parseWar3_line
       (filter (\<lambda>line. length (trim line) > 0) (split_crlf [] text))"

text \<open>
  \<open>replace(/\\+/, '/')\<close>: the regular expression has no \<open>g\<close> flag, so only the
  first run of backslashes is replaced.
\<close>

fun replace_first_backslash_run :: "string \<Rightarrow> string" where
  "replace_first_backslash_run [] = []"
| "replace_first_backslash_run (c # cs) =
     (if c = CHR 0x5C then CHR ''/'' # dropWhile (\<lambda>x. x = CHR 0x5C) cs
      else c # replace_first_backslash_run cs)"

text \<open>\<open>s.includes(q)\<close>: \<open>q\<close> occurs in \<open>s\<close> as a substring.\<close>

fun includes_str :: "string \<Rightarrow> string \<Rightarrow> bool" where
  "includes_str [] q = (q = [])"
| "includes_str (c # cs) q = (take (length q) (c # cs) = q \<or> includes_str cs q)"

definition getEntryByPath :: "RootEntry list \<Rightarrow> string \<Rightarrow> RootEntry list" where
  "getEntryByPath entries path =
     (let query = replace_first_backslash_run (toLowerCase path) in
      filter (\<lambda>e. case normalizedPath e of None \<Rightarrow> False | Some p \<Rightarrow> includes_str p query) entries)"

text \<open>
  The query normalisation as the specification words it, for comparison: every run of
  backslashes collapses to one slash.
\<close>

fun collapse_runs :: "bool \<Rightarrow> string \<Rightarrow> string" where
  "collapse_runs in_run [] = []"
| "collapse_runs in_run (c # cs) =
     (if c = CHR 0x5C then (if in_run then collapse_runs True cs
                            else CHR ''/'' # collapse_runs True cs)
      else c # collapse_runs False cs)"

definition collapse_backslash_runs :: "string \<Rightarrow> string" where
  "collapse_backslash_runs s = collapse_runs False s"

definition getEntryByPath_spec :: "RootEntry list \<Rightarrow> string \<Rightarrow> RootEntry list" where
  "getEntryByPath_spec entries path =
     (let query = collapse_backslash_runs (toLowerCase path) in
      filter (\<lambda>e. case normalizedPath e of None \<Rightarrow> False | Some p \<Rightarrow> includes_str p query) entries)"

section \<open>The client (client.ts)\<close>

record EncodingEntry =
  cKey :: string
  eKeys :: "string list"
  fileSize :: nat

text \<open>
  The state of the client that file lookups read: the encoding table (absent until it is
  loaded) and the map of index entries.  \<open>fetchDirectFromCDN\<close> goes to the network or
  the cache and answers with a buffer or \<open>null\<close>; it is a parameter \<open>fetch\<close>.
\<close>

record CascClient =
  encodingTable :: "(string \<rightharpoonup> EncodingEntry) option"
  indices :: "string \<rightharpoonup> IndexEntry"

definition getEKeyByCKey :: "CascClient \<Rightarrow> string \<Rightarrow> error + string list" where
  "getEKeyByCKey c k =
     (case encodingTable c of
        None \<Rightarrow> Inl EncodingTableNotLoaded
      | Some entries \<Rightarrow> (case entries k of Some entry \<Rightarrow> Inr (eKeys entry) | None \<Rightarrow> Inr [k]))"

definition getLocation :: "CascClient \<Rightarrow> string \<Rightarrow> IndexEntry option" where
  "getLocation c k = indices c k"

text \<open>\<open>subarray(start, end)\<close> for non-negative bounds; it clamps to the buffer.\<close>

definition subarray :: "Buffer \<Rightarrow> nat \<Rightarrow> nat \<Rightarrow> Buffer" where
  "subarray b start end = take (end - start) (drop start b)"

text \<open>
  The loop of \<open>getFile\<close> over the candidate keys, and \<open>getFile\<close>; \<open>Inr None\<close> is the
  result \<open>null\<close>.
\<close>

fun getFile_from ::
  "(string \<Rightarrow> Buffer option) \<Rightarrow> codecs \<Rightarrow> CascClient \<Rightarrow> string \<Rightarrow> string list
     \<Rightarrow> error + Buffer option" where
  "getFile_from fetch cd c k [] = Inr None"
| "getFile_from fetch cd c k (ek # rest) =
     (case getLocation c ek of
        None \<Rightarrow> getFile_from fetch cd c k rest
      | Some loc \<Rightarrow>
          (case fetch (archiveHash loc) of
             None \<Rightarrow> Inl (ErrorGettingDataBlock k)
           | Some b \<Rightarrow>
               (case decode_BLTE cd (subarray b (offset_ie loc) (offset_ie loc + size_ie loc)) of
                  Inl e \<Rightarrow> Inl e
                | Inr data \<Rightarrow> Inr (Some data))))"

definition getFile ::
  "(string \<Rightarrow> Buffer option) \<Rightarrow> codecs \<Rightarrow> CascClient \<Rightarrow> string \<Rightarrow> error + Buffer option" where
  "getFile fetch cd c k =
     (case getEKeyByCKey c k of
        Inl e \<Rightarrow> Inl e
      | Inr candidates \<Rightarrow> getFile_from fetch cd c k candidates)"

text \<open>
  \<open>getFiles\<close>, step by step.  The \<open>flatMap\<close> collects the candidate keys of all content
  keys and records in \<open>eKeyToCKey\<close> which content key each came from.
\<close>

fun collect_eKeys ::
  "CascClient \<Rightarrow> string list \<Rightarrow> (string \<rightharpoonup> string)
     \<Rightarrow> error + (string list \<times> (string \<rightharpoonup> string))" where
  "collect_eKeys c [] eKeyToCKey = Inr ([], eKeyToCKey)"
| "collect_eKeys c (k # ks) eKeyToCKey =
     (case getEKeyByCKey c k of
        Inl e \<Rightarrow> Inl e
      | Inr candidates \<Rightarrow>
          (case collect_eKeys c ks (foldl (\<lambda>m ek. m(ek \<mapsto> k)) eKeyToCKey candidates) of
             Inl e \<Rightarrow> Inl e
           | Inr (rest, m) \<Rightarrow> Inr (candidates @ rest, m)))"

text \<open>
  The \<open>reduce\<close> groups the locations by archive in an object that starts as \<open>{}\<close>;
  \<open>group_locations\<close> keeps the groups in the order in which their keys were created.
  A key that \<open>{}\<close> inherits from \<open>Object.prototype\<close> is found by
  \<open>acc[loc.archiveHash]\<close> before anything was stored, and the \<open>push\<close> on what is found
  throws a \<open>TypeError\<close>.
\<close>

definition Object_prototype_keys :: "string list" where
  "Object_prototype_keys =
     [''__proto__'', ''constructor'', ''hasOwnProperty'', ''isPrototypeOf'',
      ''propertyIsEnumerable'', ''toLocaleString'', ''toString'', ''valueOf'',
      ''__defineGetter__'', ''__defineSetter__'', ''__lookupGetter__'', ''__lookupSetter__'']"

fun push_loc ::
  "IndexEntry \<Rightarrow> (string \<times> IndexEntry list) list \<Rightarrow> (string \<times> IndexEntry list) list" where
  "push_loc loc [] = [(archiveHash loc, [loc])]"
| "push_loc loc ((h, locs) # rest) =
     (if h = archiveHash loc then (h, locs @ [loc]) # rest else (h, locs) # push_loc loc rest)"

fun group_locations ::
  "IndexEntry list \<Rightarrow> (string \<times> IndexEntry list) list
     \<Rightarrow> error + (string \<times> IndexEntry list) list" where
  "group_locations [] acc = Inr acc"
| "group_locations (loc # locs) acc =
     (if archiveHash loc \<in> set Object_prototype_keys then Inl TypeError
      else group_locations locs (push_loc loc acc))"

text \<open>
  \<open>Object.entries\<close> lists the keys that are array indices (canonical decimal numerals up
  to \<open>2^32 - 2\<close>) first, in ascending numeric order, and then the other keys in the order
  of their creation.
\<close>

definition is_digit :: "char \<Rightarrow> bool" where
  "is_digit c = (c \<in> set ''0123456789'')"

definition digits_value :: "string \<Rightarrow> nat" where
  "digits_value s = foldl (\<lambda>n c. 10 * n + (of_char c - 48)) 0 s"

definition is_array_index :: "string \<Rightarrow> bool" where
  "is_array_index s =
     (s \<noteq> [] \<and> list_all is_digit s \<and> (s = ''0'' \<or> hd s \<noteq> CHR ''0'') \<and>
      digits_value s \<le> 4294967294)"

definition Object_entries :: "(string \<times> 'a) list \<Rightarrow> (string \<times> 'a) list" where
  "Object_entries props =
     sort_key (\<lambda>p. digits_value (fst p)) (filter (\<lambda>p. is_array_index (fst p)) props)
     @ filter (\<lambda>p. \<not> is_array_index (fst p)) props"

text \<open>
  The first half of \<open>getFiles\<close> builds \<open>eKeyToCKey\<close> and the object \<open>locations\<close>;
  the result here is the map and the entries of the object in the order in which the
  \<open>for\<close> loop will visit them.
\<close>

definition resolved_locations :: "CascClient \<Rightarrow> string list \<Rightarrow> IndexEntry list" where
  "resolved_locations c ks =
     (case collect_eKeys c ks Map.empty of
        Inl e \<Rightarrow> []
      | Inr (candidates, m) \<Rightarrow> List.map_filter (getLocation c) candidates)"

definition getFiles_locations ::
  "CascClient \<Rightarrow> string list
     \<Rightarrow> error + ((string \<rightharpoonup> string) \<times> (string \<times> IndexEntry list) list)" where
  "getFiles_locations c ks =
     (case collect_eKeys c ks Map.empty of
        Inl e \<Rightarrow> Inl e
      | Inr (candidates, m) \<Rightarrow>
          (case group_locations (List.map_filter (getLocation c) candidates) [] of
             Inl e \<Rightarrow> Inl e
           | Inr locations \<Rightarrow> Inr (m, Object_entries locations)))"

text \<open>
  What a run of \<open>getFiles\<close> does: the error it throws, if any; the pairs of content key
  and decoded data it has produced, in order (each is passed to the callback at once, or
  pushed to \<open>promiseOutput\<close>, from which a call that completes builds the record it
  returns); and the archives it has fetched, in order.
\<close>

record getFiles_run =
  thrown :: "error option"
  delivered :: "(string \<times> Buffer) list"
  fetched :: "string list"

definition slice_of :: "Buffer \<Rightarrow> IndexEntry \<Rightarrow> Buffer" where
  "slice_of b loc = subarray b (offset_ie loc) (offset_ie loc + size_ie loc)"

text \<open>
  \<open>eKeyToCKey.get(loc.eKey) || loc.eKey\<close> falls back to the key of the location when
  nothing, or the empty string, is recorded.
\<close>

definition originalCKey :: "(string \<rightharpoonup> string) \<Rightarrow> IndexEntry \<Rightarrow> string" where
  "originalCKey eKeyToCKey loc =
     (case eKeyToCKey (eKey loc) of
        Some k \<Rightarrow> if k = [] then eKey loc else k
      | None \<Rightarrow> eKey loc)"

text \<open>
  The inner loop decodes the slices of one archive from the buffer \<open>b\<close> that was fetched
  for it; the outer loop fetches the archive of each group and throws when the fetch
  answers \<open>null\<close>.
\<close>

fun decode_locs ::
  "codecs \<Rightarrow> (string \<rightharpoonup> string) \<Rightarrow> Buffer \<Rightarrow> IndexEntry list \<Rightarrow> (string \<times> Buffer) list
     \<Rightarrow> error option \<times> (string \<times> Buffer) list" where
  "decode_locs cd eKeyToCKey b [] out = (None, out)"
| "decode_locs cd eKeyToCKey b (loc # locs) out =
     (case decode_BLTE cd (slice_of b loc) of
        Inl e \<Rightarrow> (Some e, out)
      | Inr data \<Rightarrow> decode_locs cd eKeyToCKey b locs (out @ [(originalCKey eKeyToCKey loc, data)]))"

fun fetch_groups ::
  "(string \<Rightarrow> Buffer option) \<Rightarrow> codecs \<Rightarrow> (string \<rightharpoonup> string)
     \<Rightarrow> (string \<times> IndexEntry list) list \<Rightarrow> (string \<times> Buffer) list \<Rightarrow> string list
     \<Rightarrow> getFiles_run" where
  "fetch_groups fetch cd eKeyToCKey [] out log =
     \<lparr>thrown = None, delivered = out, fetched = log\<rparr>"
| "fetch_groups fetch cd eKeyToCKey ((h, locs) # rest) out log =
     (case fetch h of
        None \<Rightarrow> \<lparr>thrown = Some (ErrorGettingDataBlock h), delivered = out, fetched = log @ [h]\<rparr>
      | Some b \<Rightarrow>
          (case decode_locs cd eKeyToCKey b locs out of
             (Some e, out') \<Rightarrow> \<lparr>thrown = Some e, delivered = out', fetched = log @ [h]\<rparr>
           | (None, out') \<Rightarrow> fetch_groups fetch cd eKeyToCKey rest out' (log @ [h])))"

definition getFiles ::
  "(string \<Rightarrow> Buffer option) \<Rightarrow> codecs \<Rightarrow> CascClient \<Rightarrow> string list \<Rightarrow> getFiles_run" where
  "getFiles fetch cd c ks =
     (case getFiles_locations c ks of
        Inl e \<Rightarrow> \<lparr>thrown = Some e, delivered = [], fetched = []\<rparr>
      | Inr (m, locations) \<Rightarrow> fetch_groups fetch cd m locations [] [])"

text \<open>
  For the statements about \<open>getFiles\<close>: a slice decodes; a group is served when its
  archive can be fetched and all its slices decode; and the pairs that a group yields,
  one for each slice before the first that fails to decode, each decoded from the buffer
  fetched for the group's archive.
\<close>

definition slice_ok :: "codecs \<Rightarrow> Buffer \<Rightarrow> IndexEntry \<Rightarrow> bool" where
  "slice_ok cd b loc = (\<not> isl (decode_BLTE cd (slice_of b loc)))"

definition group_ok ::
  "(string \<Rightarrow> Buffer option) \<Rightarrow> codecs \<Rightarrow> string \<times> IndexEntry list \<Rightarrow> bool" where
  "group_ok fetch cd g =
     (case fetch (fst g) of None \<Rightarrow> False | Some b \<Rightarrow> list_all (slice_ok cd b) (snd g))"

definition group_pairs ::
  "(string \<Rightarrow> Buffer option) \<Rightarrow> codecs \<Rightarrow> (string \<rightharpoonup> string) \<Rightarrow> string \<times> IndexEntry list
     \<Rightarrow> (string \<times> Buffer) list" where
  "group_pairs fetch cd eKeyToCKey g =
     (case fetch (fst g) of
        None \<Rightarrow> []
      | Some b \<Rightarrow>
          map (\<lambda>loc. (originalCKey eKeyToCKey loc, projr (decode_BLTE cd (slice_of b loc))))
            (takeWhile (slice_ok cd b) (snd g)))"

text \<open>
  The error that a group which is not served makes the call throw: that of the fetch, or
  that of the first slice that fails to decode.
\<close>

definition group_error ::
  "(string \<Rightarrow> Buffer option) \<Rightarrow> codecs \<Rightarrow> string \<times> IndexEntry list \<Rightarrow> error" where
  "group_error fetch cd g =
     (case fetch (fst g) of
        None \<Rightarrow> ErrorGettingDataBlock (fst g)
      | Some b \<Rightarrow>
          projl (decode_BLTE cd
                   (slice_of b (snd g ! length (takeWhile (slice_ok cd b) (snd g))))))"

text \<open>
  The groups \<open>acc\<close> built from the locations \<open>seen\<close> so far: one group for each archive
  hash, holding the locations of that archive in their order.
\<close>

definition grouped :: "(string \<times> IndexEntry list) list \<Rightarrow> IndexEntry list \<Rightarrow> bool" where
  "grouped acc seen =
     (distinct (map fst acc) \<and> set (map fst acc) = archiveHash ` set seen \<and>
      (\<forall>h ls. (h, ls) \<in> set acc \<longrightarrow> ls = filter (\<lambda>l. archiveHash l = h) seen))"

section \<open>Example inputs\<close>

text \<open>
  A container with one uncompressed block that holds \<open>hello\<close>, an archive that consists
  of this container, and clients whose index locates keys in archives \<open>a1\<close> and \<open>b2\<close>
  while the encoding table is loaded and empty.
\<close>

definition hello_container :: Buffer where
  "hello_container =
     ascii ''BLTE'' @ [0, 0, 0, 0x24, 0x0F, 0, 0, 1, 0, 0, 0, 6, 0, 0, 0, 5] @ replicate 16 0
       @ ascii ''N'' @ ascii ''hello''"

definition hello_location :: "string \<Rightarrow> string \<Rightarrow> IndexEntry" where
  "hello_location k h =
     \<lparr>eKey = k, size_ie = 42, offset_ie = 0, archiveHash = h, source = Archive\<rparr>"

definition example_client :: CascClient where
  "example_client =
     \<lparr>encodingTable = Some Map.empty,
      indices = [''k1'' \<mapsto> hello_location ''k1'' ''a1'', ''k2'' \<mapsto> hello_location ''k2'' ''b2'']\<rparr>"

definition example_fetch :: "string \<Rightarrow> Buffer option" where
  "example_fetch h = (if h = ''a1'' \<or> h = ''b2'' then Some hello_container else None)"

text \<open>
  A second container, holding \<open>world\<close>; an archive \<open>a1\<close> that consists of the two
  containers one after the other and an archive \<open>b2\<close> that is the first container; and
  a client whose index has two keys in \<open>a1\<close> and one in \<open>b2\<close>.
\<close>

definition world_container :: Buffer where
  "world_container =
     ascii ''BLTE'' @ [0, 0, 0, 0x24, 0x0F, 0, 0, 1, 0, 0, 0, 6, 0, 0, 0, 5] @ replicate 16 0
       @ ascii ''N'' @ ascii ''world''"

definition batch_location :: "string \<Rightarrow> string \<Rightarrow> nat \<Rightarrow> IndexEntry" where
  "batch_location k h off =
     \<lparr>eKey = k, size_ie = 42, offset_ie = off, archiveHash = h, source = Archive\<rparr>"

definition batch_client :: CascClient where
  "batch_client =
     \<lparr>encodingTable = Some Map.empty,
      indices = [''k1'' \<mapsto> batch_location ''k1'' ''a1'' 0,
                 ''k2'' \<mapsto> batch_location ''k2'' ''b2'' 0,
                 ''k3'' \<mapsto> batch_location ''k3'' ''a1'' 42]\<rparr>"

definition batch_fetch :: "string \<Rightarrow> Buffer option" where
  "batch_fetch h =
     (if h = ''a1'' then Some (hello_container @ world_container)
      else if h = ''b2'' then Some hello_container
      else None)"

section \<open>Properties of the archive index parser\<close>

lemma readBytes_ok:
  "bitOffset rd = 0 \<Longrightarrow> offset rd + n \<le> length (buf rd) \<Longrightarrow>
   readBytes n dec rd =
     (Inr (dec (take n (drop (offset rd) (buf rd)))), rd\<lparr>offset := offset rd + n\<rparr>)"
  by (simp add: readBytes_def alignToByte_def)

lemma readBytes_short:
  "bitOffset rd = 0 \<Longrightarrow> offset rd + n > length (buf rd) \<Longrightarrow>
   readBytes n dec rd = (Inl RangeError, rd)"
  by (simp add: readBytes_def alignToByte_def)

lemma read_entry_ok:
  assumes "bitOffset rd = 0" and "offset rd + 24 \<le> length (buf rd)"
  shows "read_entry h s rd =
     (let entry = entry_at h s (drop (offset rd) (buf rd)) in
      (if size_ie entry > 2 * 1024 * 1024 then Inl InvalidIndexEntrySize else Inr entry,
       rd\<lparr>offset := offset rd + 24\<rparr>))"
  using assms
  by (simp add: read_entry_def string_hex_def uint32be_def readBytes_ok entry_at_def Let_def
      add.commute)

lemma read_entry_short:
  assumes "bitOffset rd = 0" and "offset rd + 24 > length (buf rd)"
  shows "fst (read_entry h s rd) = Inl RangeError"
proof (cases "offset rd + 16 \<le> length (buf rd)")
  case False
  with assms show ?thesis
    by (simp add: read_entry_def string_hex_def readBytes_short)
next
  case k: True
  show ?thesis
  proof (cases "offset rd + 20 \<le> length (buf rd)")
    case False
    with assms k show ?thesis
      by (simp add: read_entry_def string_hex_def uint32be_def readBytes_ok readBytes_short)
  next
    case True
    with assms k show ?thesis
      by (simp add: read_entry_def string_hex_def uint32be_def readBytes_ok readBytes_short)
  qed
qed

lemma entries_from_short: "length bs < 24 \<Longrightarrow> entries_from h s bs = []"
  by (subst entries_from.simps) simp

lemma entries_from_step:
  "24 \<le> length bs \<Longrightarrow> entries_from h s bs =
     (if size_ie (entry_at h s bs) > 2 * 1024 * 1024 then [] else [entry_at h s bs])
     @ entries_from h s (drop 24 bs)"
  by (subst entries_from.simps) simp

lemma index_while_short:
  assumes "bitOffset rd = 0" and "offset rd + 24 > length (buf rd)"
  shows "index_while h s rd out = Some out"
proof -
  have "fst (read_entry h s rd) = Inl RangeError"
    using assms by (rule read_entry_short)
  then show ?thesis
    by (subst index_while.simps) (auto split: prod.splits sum.splits)
qed

lemma index_while_step:
  assumes "bitOffset rd = 0" and "offset rd + 24 \<le> length (buf rd)"
  shows "index_while h s rd out =
     index_while h s (rd\<lparr>offset := offset rd + 24\<rparr>)
       (out @ (if size_ie (entry_at h s (drop (offset rd) (buf rd))) > 2 * 1024 * 1024 then []
               else [entry_at h s (drop (offset rd) (buf rd))]))"
proof -
  have ne: "\<not> eof rd" using assms(2) by (simp add: eof_def)
  show ?thesis
    by (subst index_while.simps) (simp add: ne read_entry_ok [OF assms] Let_def)
qed

lemma index_while_entries:
  "bitOffset rd = 0 \<Longrightarrow>
   index_while h s rd out = Some (out @ entries_from h s (drop (offset rd) (buf rd)))"
proof (induction "length (buf rd) - offset rd" arbitrary: rd out rule: less_induct)
  case less
  define bs where "bs = drop (offset rd) (buf rd)"
  show ?case
  proof (cases "offset rd + 24 \<le> length (buf rd)")
    case True
    let ?rd = "rd\<lparr>offset := offset rd + 24\<rparr>"
    have ih: "index_while h s ?rd out' =
        Some (out' @ entries_from h s (drop (offset ?rd) (buf ?rd)))" for out'
      using less.prems True by (intro less.hyps) auto
    have len: "24 \<le> length bs" using True by (simp add: bs_def)
    have dr: "drop (offset rd + 24) (buf rd) = drop 24 bs" by (simp add: bs_def add.commute)
    show ?thesis
      unfolding index_while_step [OF less.prems True] ih
      by (simp add: dr entries_from_step [OF len] bs_def [symmetric])
  next
    case False
    then have "length bs < 24" by (simp add: bs_def)
    then have "entries_from h s bs = []" by (rule entries_from_short)
    then show ?thesis
      using False less.prems by (simp add: index_while_short bs_def)
  qed
qed

lemma parseIndexEntry_entries:
  "parseIndexEntry input h s =
     Some (entries_from h s
       (if length input mod 4096 = 0 then input
        else take (((length input + 4096 - 1) div 4096 - 1) * 4096) input))"
  by (simp add: parseIndexEntry_def new_BufferReader_def index_while_entries Let_def)

lemma entries_from_size: "e \<in> set (entries_from h s bs) \<Longrightarrow> size_ie e \<le> 2 * 1024 * 1024"
proof (induction "length bs" arbitrary: bs rule: less_induct)
  case less
  show ?case
  proof (cases "length bs < 24")
    case True
    with less.prems show ?thesis by (simp add: entries_from_short)
  next
    case False
    then have len: "24 \<le> length bs" by simp
    from less.prems consider
      "e = entry_at h s bs" "\<not> size_ie (entry_at h s bs) > 2 * 1024 * 1024"
      | "e \<in> set (entries_from h s (drop 24 bs))"
      unfolding entries_from_step [OF len] by (auto split: if_splits)
    then show ?thesis
    proof cases
      case 1
      then show ?thesis by simp
    next
      case 2
      moreover have "length (drop 24 bs) < length bs" using len by simp
      ultimately show ?thesis by (rule less.hyps [rotated])
    qed
  qed
qed

lemma replicate4: "replicate 4 x = [x, x, x, x]"
  by (simp add: numeral_eq_Suc)

lemma replicate16: "replicate 16 x = [x, x, x, x, x, x, x, x, x, x, x, x, x, x, x, x]"
  by (simp add: numeral_eq_Suc)

lemma entry_at_replicate:
  assumes "24 \<le> n"
  shows "entry_at h s (replicate n x) =
     \<lparr>eKey = hex (replicate 16 x), size_ie = be_nat (replicate 4 x),
      offset_ie = be_nat (replicate 4 x), archiveHash = h, source = s\<rparr>"
  using assms by (simp add: entry_at_def)

lemma entries_from_ff: "entries_from h s (replicate n 255) = []"
proof (induction n rule: less_induct)
  case (less n)
  show ?case
  proof (cases "n < 24")
    case True
    then show ?thesis by (simp add: entries_from_short)
  next
    case False
    then have n: "24 \<le> n" by simp
    have "size_ie (entry_at h s (replicate n 255)) = 4294967295"
      by (simp add: entry_at_replicate [OF n] replicate4 be_nat_def)
    moreover have "entries_from h s (replicate (n - 24) 255) = []"
      using n by (intro less.IH) simp
    ultimately show ?thesis
      using n by (simp add: entries_from_step)
  qed
qed

lemma entries_from_zero:
  "entries_from h s (replicate n 0) =
     replicate (n div 24)
       \<lparr>eKey = replicate 32 CHR ''0'', size_ie = 0, offset_ie = 0, archiveHash = h, source = s\<rparr>"
proof (induction n rule: less_induct)
  case (less n)
  show ?case
  proof (cases "n < 24")
    case True
    then show ?thesis by (simp add: entries_from_short)
  next
    case False
    then have n: "24 \<le> n" by simp
    have r32: "replicate 32 c = replicate 16 c @ replicate 16 c" for c :: char
      by (simp add: replicate_add [symmetric])
    have h16: "hex (replicate 16 0) = replicate 32 CHR ''0''"
      unfolding r32 replicate16 by (simp add: hex_def hex_digit_def)
    have e: "entry_at h s (replicate n 0) =
       \<lparr>eKey = replicate 32 CHR ''0'', size_ie = 0, offset_ie = 0, archiveHash = h, source = s\<rparr>"
      unfolding entry_at_replicate [OF n] h16 by (simp add: replicate4 be_nat_def)
    have d: "n div 24 = Suc ((n - 24) div 24)"
      using n by (simp add: le_div_geq)
    have "entries_from h s (replicate (n - 24) 0) =
       replicate ((n - 24) div 24)
         \<lparr>eKey = replicate 32 CHR ''0'', size_ie = 0, offset_ie = 0, archiveHash = h, source = s\<rparr>"
      using n by (intro less.IH) simp
    then show ?thesis
      using n by (simp add: entries_from_step e d)
  qed
qed

text \<open>
  C1 (as amended).  Every \<open>IndexEntry\<close> that \<open>parseIndexEntry\<close> emits has a size of at
  most 2 MiB (and at least 0).  The size check is \<open>size < 0 || size > 2 MiB\<close>, so an entry
  of size 0 passes it.
\<close>

theorem parseIndexEntry_size_le_2MiB:
  "parseIndexEntry input h s = Some out \<Longrightarrow> e \<in> set out \<Longrightarrow>
   0 \<le> size_ie e \<and> size_ie e \<le> 2 * 1024 * 1024"
  unfolding parseIndexEntry_entries by (auto dest: entries_from_size)

theorem parseIndexEntry_size_le_2MiB_witness:
  "parseIndexEntry
     ([1, 2, 3, 4, 5, 6, 7, 8, 9, 10, 11, 12, 13, 14, 15, 255, 0, 0, 0, 5, 0, 0, 1, 0]
        @ replicate 4072 255) ''ab'' Archive
   = Some [\<lparr>eKey = ''0102030405060708090a0b0c0d0e0fff'', size_ie = 5, offset_ie = 256,
            archiveHash = ''ab'', source = Archive\<rparr>]
   \<and> (5::nat) \<le> 2 * 1024 * 1024"
proof -
  let ?b = "[1, 2, 3, 4, 5, 6, 7, 8, 9, 10, 11, 12, 13, 14, 15, 255, 0, 0, 0, 5, 0, 0, 1, 0]
              @ replicate 4072 (255::byte)"
  let ?e = "\<lparr>eKey = ''0102030405060708090a0b0c0d0e0fff'', size_ie = 5, offset_ie = 256,
             archiveHash = ''ab'', source = Archive\<rparr>"
  have p: "parseIndexEntry ?b ''ab'' Archive = Some [?e]"
    by (simp add: parseIndexEntry_entries entries_from_step entries_from_ff entry_at_def
        be_nat_def hex_def hex_digit_def)
  have "size_ie ?e \<le> 2 * 1024 * 1024"
    using parseIndexEntry_size_le_2MiB [OF p, of ?e] by simp
  with p show ?thesis by simp
qed

text \<open>
  C1, as stated, fails: a page of 4096 zero bytes is page aligned, so all of it is data,
  and each of its 170 complete records is emitted with size 0.
\<close>

theorem parseIndexEntry_emits_size_zero:
  "parseIndexEntry (replicate 4096 0) ''ab'' Archive =
     Some (replicate 170 \<lparr>eKey = replicate 32 CHR ''0'', size_ie = 0, offset_ie = 0,
                          archiveHash = ''ab'', source = Archive\<rparr>)"
  by (simp add: parseIndexEntry_entries entries_from_zero)






text \<open>
  C10.  \<open>parseIndexEntry\<close> returns for every buffer.  In each iteration of the loop
  (the reader is byte aligned and not at the end) the body either throws a \<open>RangeError\<close>,
  which leaves the loop, or leaves the reader exactly 24 bytes further, also when the
  size check throws.
\<close>

theorem parseIndexEntry_terminates:
  "(\<exists>out. parseIndexEntry input h s = Some out) \<and>
   (bitOffset rd = 0 \<and> \<not> eof rd \<longrightarrow>
      fst (read_entry h s rd) = Inl RangeError \<or>
      snd (read_entry h s rd) = rd\<lparr>offset := offset rd + 24\<rparr>)"
proof (intro conjI impI)
  show "\<exists>out. parseIndexEntry input h s = Some out"
    by (simp add: parseIndexEntry_entries)
next
  assume a: "bitOffset rd = 0 \<and> \<not> eof rd"
  show "fst (read_entry h s rd) = Inl RangeError \<or>
        snd (read_entry h s rd) = rd\<lparr>offset := offset rd + 24\<rparr>"
  proof (cases "offset rd + 24 \<le> length (buf rd)")
    case True
    with a show ?thesis by (simp add: read_entry_ok Let_def)
  next
    case False
    with a show ?thesis by (simp add: read_entry_short)
  qed
qed

theorem parseIndexEntry_terminates_witness:
  "(\<exists>out. parseIndexEntry (replicate 4096 255) ''ab'' Archive = Some out) \<and>
   fst (read_entry ''ab'' Archive \<lparr>buf = replicate 4096 255, offset = 0, bitOffset = 0\<rparr>)
     = Inl InvalidIndexEntrySize \<and>
   snd (read_entry ''ab'' Archive \<lparr>buf = replicate 4096 255, offset = 0, bitOffset = 0\<rparr>)
     = \<lparr>buf = replicate 4096 255, offset = 24, bitOffset = 0\<rparr>"
proof -
  have "size_ie (entry_at ''ab'' Archive (replicate 4096 255)) = 4294967295"
    by (simp add: entry_at_def replicate4 be_nat_def)
  then have f: "fst (read_entry ''ab'' Archive
       \<lparr>buf = replicate 4096 255, offset = 0, bitOffset = 0\<rparr>) = Inl InvalidIndexEntrySize"
    by (simp add: read_entry_ok Let_def)
  show ?thesis
    using parseIndexEntry_terminates
            [of "replicate 4096 255" "''ab''" Archive
                "\<lparr>buf = replicate 4096 255, offset = 0, bitOffset = 0\<rparr>"]
    by (simp add: eof_def f)
qed

section \<open>Properties of the BLTE decoder\<close>

lemma readBytes_buf: "buf (snd (readBytes n dec rd)) = buf rd"
  by (simp add: readBytes_def alignToByte_def Let_def)

lemma read_block_length:
  assumes "read_block r idx = Inr (encoding, data)"
  shows "length data < length (buf (buffer r))"
  using assms
  by (auto simp: read_block_def bindR_def returnR_def seek_def string_utf8_def readBytes_def
      alignToByte_def raw_def Let_def split: if_splits prod.splits sum.splits)

lemma bindR_buf:
  assumes "\<And>rd. buf (snd (m rd)) = buf rd" and "\<And>v rd. buf (snd (f v rd)) = buf rd"
  shows "buf (snd (bindR m f rd)) = buf rd"
proof (cases "m rd")
  case (Pair res rd')
  have "buf rd' = buf rd" using assms(1) [of rd] Pair by simp
  then show ?thesis
    using Pair assms(2) by (cases res) (simp_all add: bindR_def)
qed

lemma returnR_buf: "buf (snd (returnR v rd)) = buf rd"
  by (simp add: returnR_def)

lemma throwR_buf: "buf (snd (throwR e rd)) = buf rd"
  by (simp add: throwR_def)

lemma uint24be_buf: "buf (snd (uint24be rd)) = buf rd"
proof -
  have "buf (snd (bindR uint8 (\<lambda>b0. bindR uint8 (\<lambda>b1. bindR uint8 (\<lambda>b2.
             returnR (b0 * 65536 + b1 * 256 + b2)))) rd')) = buf rd'" for rd'
    by (intro bindR_buf returnR_buf) (simp_all add: uint8_def readBytes_buf)
  then show ?thesis
    by (simp add: uint24be_def alignToByte_def Let_def)
qed

lemma parseHeaderBlock_buf: "buf (snd (parseHeaderBlock format rd)) = buf rd"
  unfolding parseHeaderBlock_def
  by (intro bindR_buf) (simp_all add: uint32be_def string_hex_def readBytes_buf returnR_buf bindR_buf)

lemma parseHeaderBlocks_buf: "buf (snd (parseHeaderBlocks format n bs rd)) = buf rd"
proof (induction n arbitrary: bs rd)
  case 0
  show ?case by (simp add: returnR_buf)
next
  case (Suc n)
  show ?case
    by (simp del: bindR_def) (intro bindR_buf parseHeaderBlock_buf Suc.IH)
qed

lemma parseHeader_buf: "buf (snd (parseHeader rd)) = buf rd"
  unfolding parseHeader_def
  by (intro bindR_buf)
     (simp_all add: string_utf8_def uint32be_def uint8_def readBytes_buf returnR_buf throwR_buf
        bindR_buf uint24be_buf parseHeaderBlocks_buf)

lemma new_BLTEReader_buf:
  assumes "new_BLTEReader b = Inr r"
  shows "buf (buffer r) = b"
proof -
  obtain res rd where p: "parseHeader (new_BufferReader b) = (res, rd)"
    by (cases "parseHeader (new_BufferReader b)")
  have "buf rd = b"
    using parseHeader_buf [of "new_BufferReader b"] p by (simp add: new_BufferReader_def)
  then show ?thesis
    using assms p by (auto simp: new_BLTEReader_def split: sum.splits)
qed

termination decode_BLTE
proof (relation "inv_image (less_than <*lex*> less_than <*lex*> less_than)
    (\<lambda>x. case x of
        Inl (cd, b) \<Rightarrow> (length b, 2 :: nat, 0 :: nat)
      | Inr (Inl (cd, r, i, acc)) \<Rightarrow> (length (buf (buffer r)), 1, length (blocks r) - i)
      | Inr (Inr (cd, r, i)) \<Rightarrow> (length (buf (buffer r)), 0, 0))", goal_cases)
  case 1
  show ?case by (intro wf_inv_image wf_lex_prod wf_less_than)
next
  case (2 cd b r)
  then show ?case by (simp add: new_BLTEReader_buf)
next
  case (3 cd r i resultBuffer)
  then show ?case by simp
next
  case (4 cd r i resultBuffer data)
  then show ?case by simp
next
  case (5 cd r arg x encoding data)
  then have "read_block r arg = Inr (encoding, data)" by simp
  then show ?case by (simp add: read_block_length)
qed

declare decode_BLTE.simps [simp del] getBlocksData_from.simps [simp del]
  getBlockData.simps [simp del]

lemmas BLTE_header_eval =
  decode_BLTE.simps new_BLTEReader_def parseHeader_def new_BufferReader_def
  bindR_def returnR_def throwR_def string_utf8_def uint32be_def uint8_def uint24be_def
  readBytes_def alignToByte_def be_nat_def ascii_def replicate16 parseHeaderBlock_def
  string_hex_def

lemmas BLTE_block_eval =
  getBlocksData_from.simps getBlockData.simps read_block_def calcBlockOffset_def
  bindR_def returnR_def seek_def string_utf8_def readBytes_def alignToByte_def raw_def ascii_def

text \<open>
  C2 (as amended).  With the header size field set to 36 (\<open>0x24\<close>), the offset at which
  the payload of the block begins (8 bytes of preamble, 4 bytes of format and block count,
  24 bytes of block table), the container of the scenario decodes to the five bytes
  \<open>hello\<close>.
\<close>

theorem decode_BLTE_single_block_hello:
  "decode_BLTE cd
     (ascii ''BLTE'' @ [0, 0, 0, 0x24, 0x0F, 0, 0, 1, 0, 0, 0, 6, 0, 0, 0, 5] @ replicate 16 0
        @ ascii ''N'' @ ascii ''hello'') = Inr (ascii ''hello'')"
  apply (simp add: BLTE_header_eval)
  apply (simp add: BLTE_block_eval)
  done

text \<open>
  C2, as stated, fails: with the header size field 12 the decoder seeks to offset 12, the
  first byte of the block table, reads the tag \<open>0x00\<close> there and throws
  \<open>Unknown encoding\<close>.
\<close>

theorem decode_BLTE_header_size_12_fails:
  "decode_BLTE no_codecs
     (ascii ''BLTE'' @ [0, 0, 0, 0x0C, 0x0F, 0, 0, 1, 0, 0, 0, 6, 0, 0, 0, 5] @ replicate 16 0
        @ ascii ''N'' @ ascii ''hello'') = Inl (UnknownEncoding [0])"
  apply (simp add: BLTE_header_eval)
  apply (simp add: BLTE_block_eval)
  done

lemma getBlockData_tag_E:
  assumes "i < length (blocks r)"
    and "calcBlockOffset r i < length (buf (buffer r))"
    and "buf (buffer r) ! calcBlockOffset r i = 0x45"
  shows "getBlockData cd r i =
     (if calcBlockOffset r i + compressedSize (blocks r ! i) \<le> length (buf (buffer r))
      then Inl NotImplemented else Inl RangeError)"
proof -
  let ?o = "calcBlockOffset r i"
  have t: "take 1 (drop ?o (buf (buffer r))) = [0x45]"
    using assms(2,3) by (simp add: take_Suc_conv_app_nth)
  have n: "nat (int c - 1) = c - Suc 0" for c :: nat
    by arith
  have rb: "read_block r i =
     (if ?o + compressedSize (blocks r ! i) \<le> length (buf (buffer r))
      then Inr ([0x45], take (compressedSize (blocks r ! i) - 1) (drop (Suc ?o) (buf (buffer r))))
      else Inl RangeError)"
    using assms(2) t n
    by (auto simp: read_block_def bindR_def returnR_def seek_def string_utf8_def readBytes_def
      alignToByte_def raw_def Let_def)
  show ?thesis
    using assms(1)
    by (simp add: getBlockData.simps rb ascii_def processEncryptedBlock_def)
qed

text \<open>
  C8 (as amended).  Block \<open>i\<close> of a container is the tag byte at its offset followed by
  \<open>compressedSize - 1\<close> payload bytes.  When the tag byte is \<open>E\<close> (\<open>0x45\<close>),
  \<open>getBlockData\<close> never returns bytes.  It reads the payload before it looks at the tag:
  when the block lies inside the buffer it fails with the error that
  \<open>processEncryptedBlock\<close> throws, \<open>Not implemented\<close> (the specification's
  \<open>UnsupportedEncryption\<close>); when the buffer ends before the block does, it fails with the
  reader's \<open>RangeError\<close> (the specification's \<open>OutOfRange\<close>).
\<close>

theorem getBlockData_encrypted_rejected:
  assumes "i < length (blocks r)"
    and "calcBlockOffset r i < length (buf (buffer r))"
    and "buf (buffer r) ! calcBlockOffset r i = 0x45"
  shows "(\<forall>data. getBlockData cd r i \<noteq> Inr data) \<and>
     (calcBlockOffset r i + compressedSize (blocks r ! i) \<le> length (buf (buffer r)) \<longrightarrow>
        getBlockData cd r i = Inl NotImplemented) \<and>
     (length (buf (buffer r)) < calcBlockOffset r i + compressedSize (blocks r ! i) \<longrightarrow>
        getBlockData cd r i = Inl RangeError)"
  unfolding getBlockData_tag_E [OF assms] by simp

theorem getBlockData_encrypted_rejected_witness:
  "getBlockData no_codecs
     \<lparr>buffer = \<lparr>buf = ascii ''BLTE'' @ [0, 0, 0, 0x24, 0x0F, 0, 0, 1, 0, 0, 0, 6, 0, 0, 0, 5]
                        @ replicate 16 0 @ ascii ''E'' @ ascii ''hello'',
                 offset = 36, bitOffset = 0\<rparr>,
      blocksCount = 1, headerSize = 36,
      blocks = [\<lparr>compressedSize = 6, decompressedSize = 5, hash = replicate 32 CHR ''0'',
                 uncompressedHash = None\<rparr>]\<rparr> 0
   = Inl NotImplemented \<and>
   getBlockData no_codecs
     \<lparr>buffer = \<lparr>buf = ascii ''BLTE'' @ [0, 0, 0, 0x24, 0x0F, 0, 0, 1, 0, 0, 0, 6, 0, 0, 0, 5]
                        @ replicate 16 0 @ ascii ''E'' @ ascii ''hel'',
                 offset = 36, bitOffset = 0\<rparr>,
      blocksCount = 1, headerSize = 36,
      blocks = [\<lparr>compressedSize = 6, decompressedSize = 5, hash = replicate 32 CHR ''0'',
                 uncompressedHash = None\<rparr>]\<rparr> 0
   = Inl RangeError"
  using getBlockData_encrypted_rejected [of 0
     "\<lparr>buffer = \<lparr>buf = ascii ''BLTE'' @ [0, 0, 0, 0x24, 0x0F, 0, 0, 1, 0, 0, 0, 6, 0, 0, 0, 5]
                        @ replicate 16 0 @ ascii ''E'' @ ascii ''hello'',
                 offset = 36, bitOffset = 0\<rparr>,
      blocksCount = 1, headerSize = 36,
      blocks = [\<lparr>compressedSize = 6, decompressedSize = 5, hash = replicate 32 CHR ''0'',
                 uncompressedHash = None\<rparr>]\<rparr>" no_codecs]
    getBlockData_encrypted_rejected [of 0
     "\<lparr>buffer = \<lparr>buf = ascii ''BLTE'' @ [0, 0, 0, 0x24, 0x0F, 0, 0, 1, 0, 0, 0, 6, 0, 0, 0, 5]
                        @ replicate 16 0 @ ascii ''E'' @ ascii ''hel'',
                 offset = 36, bitOffset = 0\<rparr>,
      blocksCount = 1, headerSize = 36,
      blocks = [\<lparr>compressedSize = 6, decompressedSize = 5, hash = replicate 32 CHR ''0'',
                 uncompressedHash = None\<rparr>]\<rparr>" no_codecs]
  by (simp add: calcBlockOffset_def ascii_def replicate16)

text \<open>
  C8, as stated, fails: this container announces a block of 6 bytes with the tag \<open>E\<close>,
  but the input ends after 4 of them; decoding fails with \<open>RangeError\<close>, thrown by
  \<open>raw\<close>, not with the error for encryption.
\<close>

theorem decode_BLTE_truncated_encrypted_block:
  "decode_BLTE no_codecs
     (ascii ''BLTE'' @ [0, 0, 0, 0x24, 0x0F, 0, 0, 1, 0, 0, 0, 6, 0, 0, 0, 5] @ replicate 16 0
        @ ascii ''E'' @ ascii ''hel'') = Inl RangeError"
  apply (simp add: BLTE_header_eval)
  apply (simp add: BLTE_block_eval)
  done

section \<open>Properties of the root manifest\<close>

lemma ulp_of_small: "m < 2 ^ 53 \<Longrightarrow> ulp_of m = 1"
  by (subst ulp_of.simps) simp

lemma ulp_of_large: "\<not> m < 2 ^ 53 \<Longrightarrow> ulp_of m = 2 * ulp_of (m div 2)"
  by (subst ulp_of.simps) simp

lemma ulp_of_bounds: "2 ^ 53 \<le> m \<Longrightarrow> 2 \<le> ulp_of m \<and> 2 ^ 52 \<le> m div ulp_of m"
proof (induction m rule: ulp_of.induct)
  case (1 m)
  from "1.prems" have large: "\<not> m < 2 ^ 53" by simp
  show ?case
  proof (cases "m div 2 < 2 ^ 53")
    case True
    then have "ulp_of m = 2"
      by (simp add: ulp_of_large [OF large] ulp_of_small)
    moreover have "(2::nat) ^ 52 \<le> m div 2"
      using "1.prems" by simp
    ultimately show ?thesis by simp
  next
    case False
    then have "2 ^ 53 \<le> m div 2" by simp
    from "1.IH" [OF large this]
    have ih: "2 \<le> ulp_of (m div 2)" "2 ^ 52 \<le> m div 2 div ulp_of (m div 2)"
      by simp_all
    have "m div ulp_of m = m div 2 div ulp_of (m div 2)"
      by (simp add: ulp_of_large [OF large] div_mult2_eq)
    with ih show ?thesis
      by (simp add: ulp_of_large [OF large])
  qed
qed

lemma round_double_exact:
  assumes "\<bar>x\<bar> \<le> 2 ^ 53"
  shows "round_double x = x"
proof (cases "nat \<bar>x\<bar> < 2 ^ 53")
  case True
  then show ?thesis
    by (simp add: round_double_def ulp_of_small Let_def sgn_if)
next
  case False
  with assms have m: "nat \<bar>x\<bar> = 2 ^ 53" by simp
  have "ulp_of (2 ^ 53) = 2"
    by (simp add: ulp_of_large ulp_of_small)
  then have "round_double x = sgn x * int (2 ^ 53)"
    unfolding round_double_def m by (simp add: Let_def)
  also have "\<dots> = x"
  proof -
    from m have "\<bar>x\<bar> = 2 ^ 53" by (simp add: nat_eq_iff)
    then show ?thesis by (cases "0 \<le> x") (simp_all add: sgn_if)
  qed
  finally show ?thesis .
qed

lemma round_double_large:
  assumes "2 ^ 53 < \<bar>x\<bar>"
  shows "2 ^ 53 \<le> \<bar>round_double x\<bar>"
proof -
  let ?m = "nat \<bar>x\<bar>"
  let ?u = "ulp_of ?m"
  let ?q = "?m div ?u"
  let ?q' = "if 2 * (?m mod ?u) < ?u \<or> (2 * (?m mod ?u) = ?u \<and> even ?q) then ?q else ?q + 1"
  from assms have "2 ^ 53 \<le> ?m" by simp
  from ulp_of_bounds [OF this] have u: "2 \<le> ?u" and q: "2 ^ 52 \<le> ?q"
    by simp_all
  have "?q \<le> ?q'" by simp
  with q have "2 ^ 52 \<le> ?q'" by (rule order_trans)
  then have "2 ^ 52 * 2 \<le> ?q' * ?u"
    using u by (rule mult_le_mono)
  then have "(2::nat) ^ 53 \<le> ?q' * ?u" by simp
  then have "(2::int) ^ 53 \<le> int (?q' * ?u)"
    by (metis of_nat_le_iff of_nat_numeral of_nat_power)
  moreover have "\<bar>round_double x\<bar> = int (?q' * ?u)"
  proof -
    from assms have "x \<noteq> 0" by auto
    then have "\<bar>sgn x\<bar> = 1" by (simp add: abs_sgn_eq)
    moreover have "round_double x = sgn x * int (?q' * ?u)"
      unfolding round_double_def Let_def ..
    ultimately show ?thesis by (simp only: abs_mult abs_of_nat mult_1)
  qed
  ultimately show ?thesis by simp
qed

lemma js_add_exact: "\<bar>a + b\<bar> \<le> 2 ^ 53 \<Longrightarrow> js_add a b = a + b"
  by (simp add: js_add_def round_double_exact)

lemma js_add_below: "\<bar>js_add a b\<bar> < 2 ^ 53 \<Longrightarrow> js_add a b = a + b"
proof -
  assume s: "\<bar>js_add a b\<bar> < 2 ^ 53"
  have "\<bar>a + b\<bar> \<le> 2 ^ 53"
  proof (rule ccontr)
    assume "\<not> \<bar>a + b\<bar> \<le> 2 ^ 53"
    then have "2 ^ 53 < \<bar>a + b\<bar>" by simp
    from round_double_large [OF this] s show False
      by (simp add: js_add_def)
  qed
  then show ?thesis by (rule js_add_exact)
qed

lemma js_add_rounds: "js_add (js_add (2 ^ 53) 1) 0 = 2 ^ 53"
  by (simp add: js_add_def round_double_def ulp_of_large ulp_of_small Let_def)

lemma next_id_exact:
  assumes "\<bar>c\<bar> < 2 ^ 53" and "\<bar>js_add (js_add c 1) d\<bar> < 2 ^ 53"
  shows "js_add (js_add c 1) d = c + 1 + d"
proof -
  have "js_add c 1 = c + 1"
    using assms(1) by (intro js_add_exact) simp
  with js_add_below [OF assms(2)] show ?thesis by simp
qed

lemma length_block_entries: "length (block_entries k i c a) = k"
  by (induction k arbitrary: i c) (simp_all add: Let_def)

lemma block_entries_first:
  "0 < k \<Longrightarrow> fileDataId (block_entries k i c a ! 0) =
     (if i = 0 then fileDataIdDeltas a ! i
      else js_add (js_add c 1) (fileDataIdDeltas a ! i))"
  by (cases k) (simp_all add: Let_def)

lemma block_entries_next:
  "Suc j < k \<Longrightarrow>
   fileDataId (block_entries k i c a ! Suc j) =
     js_add (js_add (fileDataId (block_entries k i c a ! j)) 1)
       (fileDataIdDeltas a ! (i + Suc j))"
proof (induction k arbitrary: i c j)
  case 0
  then show ?case by simp
next
  case (Suc k)
  show ?case
  proof (cases j)
    case 0
    with Suc.prems have "0 < k" by simp
    with 0 show ?thesis
      by (simp add: Let_def block_entries_first)
  next
    case (Suc j')
    with Suc.prems have "Suc j' < k" by simp
    from Suc.IH [OF this] Suc show ?thesis
      by (simp add: Let_def)
  qed
qed

lemma parseBlock_arrays:
  assumes "parseBlock version allow rd = (Inr es, rd')"
  shows "\<exists>a. readBlockArrays version allow rd = (Inr a, rd') \<and>
             es = block_entries (numRecords a) 0 0 a"
  using assms
  by (auto simp: parseBlock_def bindR_def returnR_def split: prod.splits sum.splits)

lemma read_n_2: "read_n 2 m acc = bindR m (\<lambda>a. bindR m (\<lambda>b. returnR (acc @ [a, b])))"
  by (simp add: numeral_2_eq_2)

lemma block_entries_2:
  "map fileDataId (block_entries 2 0 c a) =
     [fileDataIdDeltas a ! 0, js_add (js_add (fileDataIdDeltas a ! 0) 1) (fileDataIdDeltas a ! 1)]"
  by (simp add: numeral_2_eq_2 Let_def)

lemma readBlockArrays_two_records:
  "readBlockArrays 1 False (new_BufferReader
      ([2, 0, 0, 0,  0, 0, 0, 0,  2, 0, 0, 0,  10, 0, 0, 0,  d0, d1, d2, d3]
        @ replicate 32 0 @ replicate 16 0)) =
   (Inr \<lparr>numRecords = 2, locale_b = 2, contentFlags_b = 0,
      fileDataIdDeltas = [10, if le_nat [d0, d1, d2, d3] \<ge> 2 ^ 31
                             then int (le_nat [d0, d1, d2, d3]) - 2 ^ 32
                             else int (le_nat [d0, d1, d2, d3])],
      contentKeys = [replicate 32 CHR ''0'', replicate 32 CHR ''0''], hasNameHashes = True,
      nameHashes = [0, 0]\<rparr>,
    \<lparr>buf = [2, 0, 0, 0,  0, 0, 0, 0,  2, 0, 0, 0,  10, 0, 0, 0,  d0, d1, d2, d3]
        @ replicate 32 0 @ replicate 16 0, offset = 68, bitOffset = 0\<rparr>)"
proof -
  have r32: "replicate 32 c = replicate 16 c @ replicate 16 c" for c :: char
    by (simp add: replicate_add [symmetric])
  have b32: "replicate 32 c = replicate 16 c @ replicate 16 c" for c :: byte
    by (simp add: replicate_add [symmetric])
  have r8: "replicate 8 c = [c, c, c, c, c, c, c, c]" for c :: byte
    by (simp add: numeral_eq_Suc)
  have b16: "replicate 16 c = replicate 8 c @ replicate 8 c" for c :: byte
    by (simp add: replicate_add [symmetric])
  have h16: "hex (replicate 16 0) = replicate 32 CHR ''0''"
    unfolding r32 replicate16 by (simp add: hex_def hex_digit_def)
  have l10: "le_nat [10, 0, 0, 0] = 10" and l2: "le_nat [2, 0, 0, 0] = 2"
    and l0: "le_nat [0, 0, 0, 0] = 0"
    by (simp_all add: le_nat_def be_nat_def)
  show ?thesis
    unfolding b32
    apply (simp add: readBlockArrays_def new_BufferReader_def remaining_def bindR_def
      returnR_def uint32le_def int32le_def readBytes_def alignToByte_def
      l10 l2 l0 read_n_2 flag_set_def Let_def)
    apply (simp add: bindR_def returnR_def string_hex_def readBytes_def alignToByte_def h16
      read_n_2 uint64le_def)
    apply (simp add: b16 r8 le_nat_def be_nat_def)
    done
qed

lemma le_nat_4: "le_nat [4, 0, 0, 0] = 4"
  by (simp add: le_nat_def be_nat_def)

lemma le_nat_minus5: "le_nat [0xFB, 0xFF, 0xFF, 0xFF] = 4294967291"
  by (simp add: le_nat_def be_nat_def)

text \<open>
  C3 (as amended).  For every parsed MFST block the first fileDataId is the first delta and
  each later one is the previous one plus 1 plus its delta, the deltas being signed and
  the additions being additions of JavaScript numbers.  As long as all fileDataIds of the
  block are below \<open>2^53\<close> in magnitude the additions are exact, and then the sequence is
  strictly increasing whenever every delta after the first is non-negative.
\<close>

theorem parseBlock_fileDataId_deltas:
  assumes "parseBlock version allow rd = (Inr es, rd')"
  shows "\<exists>a. readBlockArrays version allow rd = (Inr a, rd') \<and>
           length es = numRecords a \<and>
           (0 < length es \<longrightarrow> fileDataId (es ! 0) = fileDataIdDeltas a ! 0) \<and>
           (\<forall>i. Suc i < length es \<longrightarrow>
              fileDataId (es ! Suc i) =
                js_add (js_add (fileDataId (es ! i)) 1) (fileDataIdDeltas a ! Suc i)) \<and>
           ((\<forall>i < length es. \<bar>fileDataId (es ! i)\<bar> < 2 ^ 53) \<longrightarrow>
              (\<forall>i. Suc i < length es \<longrightarrow>
                 fileDataId (es ! Suc i) = fileDataId (es ! i) + 1 + fileDataIdDeltas a ! Suc i) \<and>
              ((\<forall>i. Suc i < length es \<longrightarrow> 0 \<le> fileDataIdDeltas a ! Suc i) \<longrightarrow>
               (\<forall>i. Suc i < length es \<longrightarrow>
                  fileDataId (es ! i) + 1 \<le> fileDataId (es ! Suc i))))"
proof -
  from parseBlock_arrays [OF assms] obtain a
    where a: "readBlockArrays version allow rd = (Inr a, rd')"
      and es: "es = block_entries (numRecords a) 0 0 a"
    by blast
  have len: "length es = numRecords a"
    by (simp add: es length_block_entries)
  have first: "0 < length es \<longrightarrow> fileDataId (es ! 0) = fileDataIdDeltas a ! 0"
    unfolding len by (simp add: es block_entries_first)
  have step: "\<forall>i. Suc i < length es \<longrightarrow>
      fileDataId (es ! Suc i) =
        js_add (js_add (fileDataId (es ! i)) 1) (fileDataIdDeltas a ! Suc i)"
    unfolding len using block_entries_next [of _ "numRecords a" 0 0 a] by (simp add: es)
  have exact: "\<forall>i. Suc i < length es \<longrightarrow>
      fileDataId (es ! Suc i) = fileDataId (es ! i) + 1 + fileDataIdDeltas a ! Suc i"
    if small: "\<forall>i < length es. \<bar>fileDataId (es ! i)\<bar> < 2 ^ 53"
  proof (intro allI impI)
    fix i assume i: "Suc i < length es"
    from small i have "\<bar>fileDataId (es ! i)\<bar> < 2 ^ 53" by simp
    moreover from small i have "\<bar>fileDataId (es ! Suc i)\<bar> < 2 ^ 53" by simp
    then have "\<bar>js_add (js_add (fileDataId (es ! i)) 1) (fileDataIdDeltas a ! Suc i)\<bar> < 2 ^ 53"
      using step i by simp
    ultimately have "js_add (js_add (fileDataId (es ! i)) 1) (fileDataIdDeltas a ! Suc i) =
        fileDataId (es ! i) + 1 + fileDataIdDeltas a ! Suc i"
      by (rule next_id_exact)
    with step i show "fileDataId (es ! Suc i) =
        fileDataId (es ! i) + 1 + fileDataIdDeltas a ! Suc i"
      by simp
  qed
  have "(\<forall>i < length es. \<bar>fileDataId (es ! i)\<bar> < 2 ^ 53) \<longrightarrow>
      (\<forall>i. Suc i < length es \<longrightarrow>
         fileDataId (es ! Suc i) = fileDataId (es ! i) + 1 + fileDataIdDeltas a ! Suc i) \<and>
      ((\<forall>i. Suc i < length es \<longrightarrow> 0 \<le> fileDataIdDeltas a ! Suc i) \<longrightarrow>
       (\<forall>i. Suc i < length es \<longrightarrow> fileDataId (es ! i) + 1 \<le> fileDataId (es ! Suc i)))"
  proof (intro impI conjI)
    assume small: "\<forall>i < length es. \<bar>fileDataId (es ! i)\<bar> < 2 ^ 53"
    from exact [OF small] show e: "\<forall>i. Suc i < length es \<longrightarrow>
         fileDataId (es ! Suc i) = fileDataId (es ! i) + 1 + fileDataIdDeltas a ! Suc i" .
    assume "\<forall>i. Suc i < length es \<longrightarrow> 0 \<le> fileDataIdDeltas a ! Suc i"
    with e show "\<forall>i. Suc i < length es \<longrightarrow> fileDataId (es ! i) + 1 \<le> fileDataId (es ! Suc i)"
      by simp
  qed
  with a len first step show ?thesis by blast
qed

theorem parseBlock_fileDataId_deltas_witness:
  "\<exists>es rd'. parseBlock 1 False (new_BufferReader
      ([2, 0, 0, 0,  0, 0, 0, 0,  2, 0, 0, 0,  10, 0, 0, 0,  4, 0, 0, 0]
        @ replicate 32 0 @ replicate 16 0)) = (Inr es, rd') \<and>
     length es = 2 \<and> fileDataId (es ! 0) = 10 \<and> fileDataId (es ! 1) = 15 \<and>
     fileDataId (es ! 0) + 1 \<le> fileDataId (es ! 1)"
proof -
  let ?rd = "new_BufferReader
      ([2, 0, 0, 0,  0, 0, 0, 0,  2, 0, 0, 0,  10, 0, 0, 0,  4, 0, 0, 0]
        @ replicate 32 0 @ replicate 16 0)"
  obtain es rd' where p: "parseBlock 1 False ?rd = (Inr es, rd')"
    unfolding parseBlock_def bindR_def readBlockArrays_two_records
    by (simp add: returnR_def)
  from parseBlock_fileDataId_deltas [OF p] obtain a where
    a: "readBlockArrays 1 False ?rd = (Inr a, rd')" and
    l: "length es = numRecords a" and
    f: "0 < length es \<longrightarrow> fileDataId (es ! 0) = fileDataIdDeltas a ! 0" and
    s: "\<forall>i. Suc i < length es \<longrightarrow>
              fileDataId (es ! Suc i) =
                js_add (js_add (fileDataId (es ! i)) 1) (fileDataIdDeltas a ! Suc i)" and
    m: "(\<forall>i < length es. \<bar>fileDataId (es ! i)\<bar> < 2 ^ 53) \<longrightarrow>
              (\<forall>i. Suc i < length es \<longrightarrow>
                 fileDataId (es ! Suc i) = fileDataId (es ! i) + 1 + fileDataIdDeltas a ! Suc i) \<and>
              ((\<forall>i. Suc i < length es \<longrightarrow> 0 \<le> fileDataIdDeltas a ! Suc i) \<longrightarrow>
               (\<forall>i. Suc i < length es \<longrightarrow>
                  fileDataId (es ! i) + 1 \<le> fileDataId (es ! Suc i)))"
    by blast
  from a have n: "numRecords a = 2" and d: "fileDataIdDeltas a = [10, 4]"
    unfolding readBlockArrays_two_records by (auto simp: le_nat_4)
  from l n have l2: "length es = 2" by simp
  from f l2 d have f0: "fileDataId (es ! 0) = 10" by simp
  have "js_add (js_add 10 1) 4 = 15"
    by (simp add: js_add_exact)
  with s [rule_format, of 0] l2 d f0 have f1: "fileDataId (es ! 1) = 15" by simp
  have small: "\<forall>i < length es. \<bar>fileDataId (es ! i)\<bar> < 2 ^ 53"
    unfolding l2 using f0 f1 by (auto simp: less_Suc_eq numeral_2_eq_2)
  have nonneg: "\<forall>i. Suc i < length es \<longrightarrow> 0 \<le> fileDataIdDeltas a ! Suc i"
    unfolding l2 d by (auto simp: less_Suc_eq numeral_2_eq_2)
  from m small nonneg have "fileDataId (es ! 0) + 1 \<le> fileDataId (es ! Suc 0)"
    using l2 by simp
  with p l2 f0 f1 show ?thesis by auto
qed

text \<open>
  C3, as stated, fails: a block with the deltas 10 and -5 has the fileDataIds 10 and 6.
\<close>

theorem parseBlock_negative_delta_decreases:
  "map fileDataId (case fst (parseBlock 1 False (new_BufferReader
      ([2, 0, 0, 0,  0, 0, 0, 0,  2, 0, 0, 0,  10, 0, 0, 0,  0xFB, 0xFF, 0xFF, 0xFF]
        @ replicate 32 0 @ replicate 16 0))) of Inr es \<Rightarrow> es | Inl e \<Rightarrow> []) = [10, 6]"
  unfolding parseBlock_def bindR_def readBlockArrays_two_records
  by (simp add: returnR_def block_entries_2 le_nat_minus5 js_add_exact)

lemmas War3_eval =
  parseWar3_def trim_def is_space_def parseWar3_line_def hashString_def
  getLocales_string_def toLowerCase_def lower_char_def

lemma parseWar3_line_Some:
  "parseWar3_line line = Some e \<Longrightarrow> contentKey e \<noteq> []"
  by (auto simp: parseWar3_line_def Let_def split: if_splits)

text \<open>
  C6 (as amended).  A line of a War3 manifest produces a \<open>RootEntry\<close> exactly when it has
  an eKey field (a second part) that is not empty; every entry of the manifest has a
  non-empty content key.  The path field is not checked.
\<close>

theorem parseWar3_entry_iff_eKey:
  "(parseWar3_line line \<noteq> None) =
     (2 \<le> length (split_char CHR ''|'' [] line) \<and> split_char CHR ''|'' [] line ! 1 \<noteq> [])
   \<and> (\<forall>e \<in> set (parseWar3 text). contentKey e \<noteq> [])"
proof
  show "(parseWar3_line line \<noteq> None) =
     (2 \<le> length (split_char CHR ''|'' [] line) \<and> split_char CHR ''|'' [] line ! 1 \<noteq> [])"
    by (auto simp: parseWar3_line_def Let_def)
  show "\<forall>e \<in> set (parseWar3 text). contentKey e \<noteq> []"
    by (auto simp: parseWar3_def List.map_filter_def dest: parseWar3_line_Some)
qed

theorem parseWar3_entry_iff_eKey_witness:
  "parseWar3_line ''a|k'' \<noteq> None \<and> parseWar3_line ''a|'' = None \<and>
   map contentKey (parseWar3 ''a|k'') = [''k''] \<and> ''k'' \<noteq> []"
proof -
  have p: "map contentKey (parseWar3 ''a|k'') = [''k'']"
    by (simp add: War3_eval)
  then have "parseWar3 ''a|k'' \<noteq> []" by auto
  then have k: "hd (parseWar3 ''a|k'') \<in> set (parseWar3 ''a|k'')" by simp
  have "contentKey (hd (parseWar3 ''a|k'')) \<noteq> []"
    using parseWar3_entry_iff_eKey [of "''a|k''" "''a|k''"] k by blast
  moreover have "parseWar3_line ''a|k'' \<noteq> None"
    using parseWar3_entry_iff_eKey [of "''a|k''" "''a|k''"] by simp
  moreover have "parseWar3_line ''a|'' = None"
    using parseWar3_entry_iff_eKey [of "''a|''" "''a|k''"] by simp
  ultimately show ?thesis using p by simp
qed

text \<open>
  C6, as stated, fails: the line \<open>|ab|enUS\<close> has an empty path field and produces an
  entry.
\<close>

theorem parseWar3_empty_path_entry:
  "parseWar3 ''|ab|enUS'' =
     [\<lparr>fileDataId = 0, contentKey = ''ab'', nameHash = Some 0,
       localeFlags = \<lparr>enUS = True, koKR = False, frFR = False, deDE = False, zhCN = False,
                      esES = False, zhTW = False, enGB = False, enCN = False, enTW = False,
                      esMX = False, ruRU = False, ptBR = False, itIT = False, ptPT = False,
                      plPL = False\<rparr>,
       contentFlags = 0, normalizedPath = Some [], scopes = Some []\<rparr>]"
  by (simp add: War3_eval)

text \<open>
  C5 is right about what the lookup should do and the code falls short of it.  The
  manifest has the one path \<open>a/b/c\<close>; the query \<open>A\b\c\<close> has two runs of backslashes.
  The code replaces only the first run, looks for \<open>a/b\c\<close> and finds nothing, where the
  normalisation of the claim finds the entry, as the query \<open>a/b/c\<close> does.
\<close>

theorem getEntryByPath_second_backslash_run:
  "getEntryByPath (parseWar3 ''a/b/c|k1|enUS'')
     [CHR ''A'', CHR 0x5C, CHR ''b'', CHR 0x5C, CHR ''c''] = [] \<and>
   getEntryByPath_spec (parseWar3 ''a/b/c|k1|enUS'')
     [CHR ''A'', CHR 0x5C, CHR ''b'', CHR 0x5C, CHR ''c''] = parseWar3 ''a/b/c|k1|enUS'' \<and>
   getEntryByPath (parseWar3 ''a/b/c|k1|enUS'') ''a/b/c'' = parseWar3 ''a/b/c|k1|enUS'' \<and>
   parseWar3 ''a/b/c|k1|enUS'' \<noteq> []"
  by (simp add: War3_eval getEntryByPath_def getEntryByPath_spec_def
      collapse_backslash_runs_def)


section \<open>Properties of the client\<close>

lemma length_hello_container: "length hello_container = 42"
  by (simp add: hello_container_def ascii_def)

lemma decode_hello_container: "decode_BLTE cd hello_container = Inr (ascii ''hello'')"
  unfolding hello_container_def
  apply (simp add: BLTE_header_eval)
  apply (simp add: BLTE_block_eval)
  done

lemma subarray_hello_container: "subarray hello_container 0 42 = hello_container"
  by (simp add: subarray_def length_hello_container)

lemma getFile_from_encodingTable:
  "getFile_from fetch cd (c\<lparr>encodingTable := t\<rparr>) k es = getFile_from fetch cd c k es"
  by (induction es) (simp_all add: getLocation_def split: option.splits)

text \<open>
  C7.  When the encoding table is loaded and has no entry for a content key, the lookup
  of candidate keys is not an error and yields the content key itself; \<open>getFile\<close> then
  does what it does for the candidate list \<open>[cKey]\<close>, the same as with a table that maps
  the content key to the single encoded key \<open>cKey\<close>: it looks the content key up in the
  index map and fetches and decodes that location.
\<close>

theorem getFile_encoding_miss_uses_cKey:
  assumes "encodingTable c = Some entries" and "entries k = None"
  shows "getEKeyByCKey c k = Inr [k] \<and>
     getFile fetch cd c k = getFile_from fetch cd c k [k] \<and>
     getFile fetch cd c k =
       getFile fetch cd
         (c\<lparr>encodingTable := Some (entries(k \<mapsto> \<lparr>cKey = k, eKeys = [k], fileSize = n\<rparr>))\<rparr>) k \<and>
     getFile fetch cd c k =
       (case indices c k of
          None \<Rightarrow> Inr None
        | Some loc \<Rightarrow>
            (case fetch (archiveHash loc) of
               None \<Rightarrow> Inl (ErrorGettingDataBlock k)
             | Some b \<Rightarrow>
                 (case decode_BLTE cd (subarray b (offset_ie loc) (offset_ie loc + size_ie loc)) of
                    Inl e \<Rightarrow> Inl e
                  | Inr data \<Rightarrow> Inr (Some data))))"
proof -
  have e: "getEKeyByCKey c k = Inr [k]"
    using assms by (simp add: getEKeyByCKey_def)
  have f: "getFile fetch cd c k = getFile_from fetch cd c k [k]"
    by (simp add: getFile_def e)
  have g: "getFile fetch cd
      (c\<lparr>encodingTable := Some (entries(k \<mapsto> \<lparr>cKey = k, eKeys = [k], fileSize = n\<rparr>))\<rparr>) k =
      getFile_from fetch cd c k [k]"
  proof -
    have "getEKeyByCKey
        (c\<lparr>encodingTable := Some (entries(k \<mapsto> \<lparr>cKey = k, eKeys = [k], fileSize = n\<rparr>))\<rparr>) k =
        Inr [k]"
      by (simp add: getEKeyByCKey_def)
    then show ?thesis
      by (simp only: getFile_def sum.case getFile_from_encodingTable)
  qed
  have h: "getFile_from fetch cd c k [k] =
       (case indices c k of
          None \<Rightarrow> Inr None
        | Some loc \<Rightarrow>
            (case fetch (archiveHash loc) of
               None \<Rightarrow> Inl (ErrorGettingDataBlock k)
             | Some b \<Rightarrow>
                 (case decode_BLTE cd (subarray b (offset_ie loc) (offset_ie loc + size_ie loc)) of
                    Inl e \<Rightarrow> Inl e
                  | Inr data \<Rightarrow> Inr (Some data))))"
    by (simp add: getLocation_def split: option.splits)
  show ?thesis
    unfolding g unfolding f h using e by simp
qed

theorem getFile_encoding_miss_uses_cKey_witness:
  "getEKeyByCKey example_client ''k1'' = Inr [''k1''] \<and>
   getFile example_fetch no_codecs example_client ''k1'' = Inr (Some (ascii ''hello''))"
proof -
  have a: "encodingTable example_client = Some Map.empty"
    by (simp add: example_client_def)
  have i: "indices example_client ''k1'' = Some (hello_location ''k1'' ''a1'')"
    by (simp add: example_client_def)
  from getFile_encoding_miss_uses_cKey
         [where c = example_client and entries = Map.empty and k = "''k1''"
            and fetch = example_fetch and cd = no_codecs and n = 0] a
  have "getEKeyByCKey example_client ''k1'' = Inr [''k1'']"
    and "getFile example_fetch no_codecs example_client ''k1'' =
       (case indices example_client ''k1'' of
          None \<Rightarrow> Inr None
        | Some loc \<Rightarrow>
            (case example_fetch (archiveHash loc) of
               None \<Rightarrow> Inl (ErrorGettingDataBlock ''k1'')
             | Some b \<Rightarrow>
                 (case decode_BLTE no_codecs
                         (subarray b (offset_ie loc) (offset_ie loc + size_ie loc)) of
                    Inl e \<Rightarrow> Inl e
                  | Inr data \<Rightarrow> Inr (Some data))))"
    by blast+
  then show ?thesis
    by (simp add: i hello_location_def example_fetch_def subarray_hello_container
        decode_hello_container)
qed

lemma push_loc_keys:
  "map fst (push_loc loc acc) =
     (if archiveHash loc \<in> fst ` set acc then map fst acc else map fst acc @ [archiveHash loc])"
proof (induction acc)
  case Nil
  show ?case by simp
next
  case (Cons g acc)
  obtain h locs where g: "g = (h, locs)" by (cases g)
  show ?case
  proof (cases "h = archiveHash loc")
    case True
    then show ?thesis by (simp add: g)
  next
    case False
    with Cons.IH show ?thesis by (simp add: g)
  qed
qed

lemma push_loc_member:
  assumes "(h, ls) \<in> set (push_loc loc acc)" and "distinct (map fst acc)"
  shows "(h \<noteq> archiveHash loc \<and> (h, ls) \<in> set acc) \<or>
         (h = archiveHash loc \<and>
            ((\<exists>ls0. (h, ls0) \<in> set acc \<and> ls = ls0 @ [loc]) \<or>
             (h \<notin> fst ` set acc \<and> ls = [loc])))"
  using assms
proof (induction acc)
  case Nil
  then show ?case by simp
next
  case (Cons g acc)
  obtain h' locs where g: "g = (h', locs)" by (cases g)
  from Cons.prems(2) have fresh: "h' \<notin> fst ` set acc" and d: "distinct (map fst acc)"
    by (simp_all add: g)
  show ?case
  proof (cases "h' = archiveHash loc")
    case True
    with Cons.prems(1) have "(h, ls) = (h', locs @ [loc]) \<or> (h, ls) \<in> set acc"
      by (simp add: g)
    then show ?thesis
    proof
      assume "(h, ls) = (h', locs @ [loc])"
      with True show ?thesis by (simp add: g)
    next
      assume m: "(h, ls) \<in> set acc"
      then have "h \<in> fst ` set acc" by force
      with fresh True have "h \<noteq> archiveHash loc" by blast
      with m show ?thesis by (simp add: g)
    qed
  next
    case False
    with Cons.prems(1) have "(h, ls) = (h', locs) \<or> (h, ls) \<in> set (push_loc loc acc)"
      by (simp add: g)
    then show ?thesis
    proof
      assume "(h, ls) = (h', locs)"
      with False show ?thesis by (simp add: g)
    next
      assume "(h, ls) \<in> set (push_loc loc acc)"
      from Cons.IH [OF this d] False show ?thesis
        by (auto simp: g)
    qed
  qed
qed

lemma grouped_push_loc:
  assumes "grouped acc seen"
  shows "grouped (push_loc loc acc) (seen @ [loc])"
proof -
  from assms have d: "distinct (map fst acc)"
    and k: "set (map fst acc) = archiveHash ` set seen"
    and f: "\<And>h ls. (h, ls) \<in> set acc \<Longrightarrow> ls = filter (\<lambda>l. archiveHash l = h) seen"
    by (simp_all add: grouped_def)
  have 1: "distinct (map fst (push_loc loc acc))"
    using d by (simp add: push_loc_keys)
  have 2: "set (map fst (push_loc loc acc)) = archiveHash ` set (seen @ [loc])"
    using k by (auto simp: push_loc_keys)
  have 3: "ls = filter (\<lambda>l. archiveHash l = h) (seen @ [loc])"
    if m: "(h, ls) \<in> set (push_loc loc acc)" for h ls
  proof -
    from push_loc_member [OF m d] consider
      (other) "h \<noteq> archiveHash loc" "(h, ls) \<in> set acc"
      | (old) ls0 where "h = archiveHash loc" "(h, ls0) \<in> set acc" "ls = ls0 @ [loc]"
      | (new) "h = archiveHash loc" "h \<notin> fst ` set acc" "ls = [loc]"
      by blast
    then show ?thesis
    proof cases
      case other
      with f [OF other(2)] show ?thesis by simp
    next
      case old
      with f [OF old(2)] show ?thesis by simp
    next
      case new
      from new(2) k have "h \<notin> archiveHash ` set seen" by simp
      then have "filter (\<lambda>l. archiveHash l = h) seen = []"
        by (auto simp: filter_empty_conv)
      with new show ?thesis by simp
    qed
  qed
  from 1 2 3 show ?thesis
    unfolding grouped_def by blast
qed

lemma grouped_group_locations:
  assumes "group_locations locs acc = Inr g" and "grouped acc seen"
  shows "grouped g (seen @ locs)"
  using assms
proof (induction locs arbitrary: acc seen)
  case Nil
  then show ?case by simp
next
  case (Cons loc locs)
  from Cons.prems(1) have g: "group_locations locs (push_loc loc acc) = Inr g"
    by (simp split: if_splits)
  from Cons.IH [OF g grouped_push_loc [OF Cons.prems(2)]] show ?case
    by simp
qed

lemma set_Object_entries: "set (Object_entries ps) = set ps"
  by (auto simp: Object_entries_def)

lemma distinct_Object_entries:
  assumes "distinct (map fst ps)"
  shows "distinct (map fst (Object_entries ps))"
proof -
  let ?A = "filter (\<lambda>p. is_array_index (fst p)) ps"
  let ?B = "filter (\<lambda>p. \<not> is_array_index (fst p)) ps"
  let ?S = "sort_key (\<lambda>p. digits_value (fst p)) ?A"
  from assms have dp: "distinct ps" and inj: "inj_on fst (set ps)"
    by (simp_all add: distinct_map)
  have "inj_on fst (set ?S)"
    using inj by (rule inj_on_subset) auto
  then have a: "distinct (map fst ?S)"
    using dp by (simp add: distinct_map)
  have b: "distinct (map fst ?B)"
    using assms by (rule distinct_map_filter)
  have "fst ` set ?S \<inter> fst ` set ?B = {}"
    by auto
  with a b show ?thesis
    by (simp add: Object_entries_def)
qed

lemma decode_locs_run:
  "decode_locs cd m b locs out =
     (if list_all (slice_ok cd b) locs then None
      else Some (projl (decode_BLTE cd
                    (slice_of b (locs ! length (takeWhile (slice_ok cd b) locs))))),
      out @ map (\<lambda>loc. (originalCKey m loc, projr (decode_BLTE cd (slice_of b loc))))
              (takeWhile (slice_ok cd b) locs))"
proof (induction locs arbitrary: out)
  case Nil
  show ?case by simp
next
  case (Cons loc locs)
  show ?case
  proof (cases "decode_BLTE cd (slice_of b loc)")
    case (Inl e)
    then show ?thesis by (simp add: slice_ok_def)
  next
    case (Inr data)
    then show ?thesis by (simp add: slice_ok_def Cons.IH)
  qed
qed

lemma fetch_groups_run:
  "fetch_groups fetch cd m gs out log =
     \<lparr>thrown = (if list_all (group_ok fetch cd) gs then None
                else Some (group_error fetch cd (gs ! length (takeWhile (group_ok fetch cd) gs)))),
      delivered = out @ concat (map (group_pairs fetch cd m)
                    (take (Suc (length (takeWhile (group_ok fetch cd) gs))) gs)),
      fetched = log @ map fst (take (Suc (length (takeWhile (group_ok fetch cd) gs))) gs)\<rparr>"
proof (induction gs arbitrary: out log)
  case Nil
  show ?case by simp
next
  case (Cons g gs)
  obtain h locs where g: "g = (h, locs)" by (cases g)
  show ?case
  proof (cases "fetch h")
    case None
    then show ?thesis
      by (simp add: g group_ok_def group_error_def group_pairs_def)
  next
    case (Some b)
    show ?thesis
    proof (cases "list_all (slice_ok cd b) locs")
      case True
      then have tw: "takeWhile (slice_ok cd b) locs = locs"
        by (simp add: list_all_iff)
      from True have ok: "group_ok fetch cd g"
        by (simp add: g group_ok_def Some)
      show ?thesis
        using True ok
        by (simp add: g Some decode_locs_run Cons.IH group_pairs_def tw)
    next
      case False
      then have ok: "\<not> group_ok fetch cd g"
        by (simp add: g group_ok_def Some)
      show ?thesis
        using False ok
        by (simp add: g Some decode_locs_run group_pairs_def group_error_def)
    qed
  qed
qed


lemma getFiles_locations_grouped:
  assumes "getFiles_locations c ks = Inr (m, gs)"
  shows "distinct (map fst gs)"
    and "set (map fst gs) = archiveHash ` set (resolved_locations c ks)"
    and "\<And>h locs. (h, locs) \<in> set gs \<Longrightarrow>
           locs = filter (\<lambda>loc. archiveHash loc = h) (resolved_locations c ks)"
proof -
  from assms obtain candidates locations where
    c: "collect_eKeys c ks Map.empty = Inr (candidates, m)" and
    g: "group_locations (List.map_filter (getLocation c) candidates) [] = Inr locations" and
    gs: "gs = Object_entries locations"
    by (auto simp: getFiles_locations_def split: sum.splits prod.splits)
  have r: "resolved_locations c ks = List.map_filter (getLocation c) candidates"
    by (simp add: resolved_locations_def c)
  have "grouped [] []" by (simp add: grouped_def)
  from grouped_group_locations [OF g this]
  have gr: "grouped locations (resolved_locations c ks)"
    by (simp add: r)
  then show "distinct (map fst gs)"
    unfolding gs by (intro distinct_Object_entries) (simp add: grouped_def)
  from gr show "set (map fst gs) = archiveHash ` set (resolved_locations c ks)"
    by (simp add: gs set_Object_entries grouped_def)
  fix h locs assume "(h, locs) \<in> set gs"
  then have "(h, locs) \<in> set locations"
    by (simp add: gs set_Object_entries)
  with gr show "locs = filter (\<lambda>loc. archiveHash loc = h) (resolved_locations c ks)"
    by (simp add: grouped_def)
qed

lemma decode_world_container: "decode_BLTE cd world_container = Inr (ascii ''world'')"
  unfolding world_container_def
  apply (simp add: BLTE_header_eval)
  apply (simp add: BLTE_block_eval)
  done

lemma length_world_container: "length world_container = 42"
  by (simp add: world_container_def ascii_def)

lemma batch_slices:
  "slice_of (hello_container @ world_container) (batch_location k h 0) = hello_container"
  "slice_of (hello_container @ world_container) (batch_location k h 42) = world_container"
  "slice_of hello_container (batch_location k h 0) = hello_container"
  by (simp_all add: slice_of_def subarray_def batch_location_def length_hello_container
      length_world_container)

lemma eKey_batch_location: "eKey (batch_location k h off) = k"
  by (simp add: batch_location_def)

lemma collect_eKeys_batch:
  "collect_eKeys batch_client [''k1'', ''k2'', ''k3''] Map.empty =
     Inr ([''k1'', ''k2'', ''k3''], [''k1'' \<mapsto> ''k1'', ''k2'' \<mapsto> ''k2'', ''k3'' \<mapsto> ''k3''])"
  by (simp add: getEKeyByCKey_def batch_client_def)

lemma map_filter_batch:
  "List.map_filter (getLocation batch_client) [''k1'', ''k2'', ''k3''] =
     [batch_location ''k1'' ''a1'' 0, batch_location ''k2'' ''b2'' 0,
      batch_location ''k3'' ''a1'' 42]"
  by (simp add: List.map_filter_def getLocation_def batch_client_def)

lemma resolved_locations_batch:
  "resolved_locations batch_client [''k1'', ''k2'', ''k3''] =
     [batch_location ''k1'' ''a1'' 0, batch_location ''k2'' ''b2'' 0,
      batch_location ''k3'' ''a1'' 42]"
  unfolding resolved_locations_def collect_eKeys_batch
  by (simp only: prod.case sum.case map_filter_batch)

lemma group_locations_batch:
  "group_locations [batch_location ''k1'' ''a1'' 0, batch_location ''k2'' ''b2'' 0,
      batch_location ''k3'' ''a1'' 42] [] =
     Inr [(''a1'', [batch_location ''k1'' ''a1'' 0, batch_location ''k3'' ''a1'' 42]),
          (''b2'', [batch_location ''k2'' ''b2'' 0])]"
  by (simp add: batch_location_def Object_prototype_keys_def)

lemma Object_entries_batch:
  "Object_entries [(''a1'', x), (''b2'', y)] = [(''a1'', x), (''b2'', y)]"
  by (simp add: Object_entries_def is_array_index_def is_digit_def)

lemma getFiles_locations_batch:
  "getFiles_locations batch_client [''k1'', ''k2'', ''k3''] =
     Inr ([''k1'' \<mapsto> ''k1'', ''k2'' \<mapsto> ''k2'', ''k3'' \<mapsto> ''k3''],
          [(''a1'', [batch_location ''k1'' ''a1'' 0, batch_location ''k3'' ''a1'' 42]),
           (''b2'', [batch_location ''k2'' ''b2'' 0])])"
  unfolding getFiles_locations_def collect_eKeys_batch
  by (simp only: prod.case sum.case map_filter_batch group_locations_batch Object_entries_batch)

lemma card_archives_batch:
  "card (archiveHash ` set (resolved_locations batch_client [''k1'', ''k2'', ''k3''])) = 2"
  unfolding resolved_locations_batch by (simp add: batch_location_def card_insert_if)

text \<open>
  C9 (as amended).  When building the groups throws, nothing is fetched.  Otherwise the
  groups are the distinct archive hashes of the resolved locations, each with the
  locations of that archive, and the call visits them in the order of \<open>Object.entries\<close>
  until the first group that is not served: the archives up to and including that one
  are fetched, once each and in this order, and no further archive is fetched; the pairs
  produced are those of the slices decoded up to the failure, every slice decoded from
  the single buffer fetched for its archive; and the call throws the error of the fetch
  or of the slice that failed.  When every group is served the call completes, and the
  number of fetches is the number of distinct archive hashes among the resolved
  locations.
\<close>

theorem getFiles_fetches_each_archive_once:
  "(\<forall>e. getFiles_locations c ks = Inl e \<longrightarrow>
      getFiles fetch cd c ks = \<lparr>thrown = Some e, delivered = [], fetched = []\<rparr>) \<and>
   (\<forall>m gs. getFiles_locations c ks = Inr (m, gs) \<longrightarrow>
      distinct (map fst gs) \<and>
      set (map fst gs) = archiveHash ` set (resolved_locations c ks) \<and>
      (\<forall>h locs. (h, locs) \<in> set gs \<longrightarrow>
         locs = filter (\<lambda>loc. archiveHash loc = h) (resolved_locations c ks)) \<and>
      fetched (getFiles fetch cd c ks) =
        map fst (take (Suc (length (takeWhile (group_ok fetch cd) gs))) gs) \<and>
      distinct (fetched (getFiles fetch cd c ks)) \<and>
      delivered (getFiles fetch cd c ks) =
        concat (map (group_pairs fetch cd m)
          (take (Suc (length (takeWhile (group_ok fetch cd) gs))) gs)) \<and>
      (list_all (group_ok fetch cd) gs \<longrightarrow>
         thrown (getFiles fetch cd c ks) = None \<and>
         fetched (getFiles fetch cd c ks) = map fst gs \<and>
         length (fetched (getFiles fetch cd c ks)) =
           card (archiveHash ` set (resolved_locations c ks))) \<and>
      (\<not> list_all (group_ok fetch cd) gs \<longrightarrow>
         thrown (getFiles fetch cd c ks) =
           Some (group_error fetch cd (gs ! length (takeWhile (group_ok fetch cd) gs)))))"
proof (intro conjI allI impI)
  fix e assume "getFiles_locations c ks = Inl e"
  then show "getFiles fetch cd c ks = \<lparr>thrown = Some e, delivered = [], fetched = []\<rparr>"
    by (simp add: getFiles_def)
next
  fix m gs assume l: "getFiles_locations c ks = Inr (m, gs)"
  have run: "getFiles fetch cd c ks = fetch_groups fetch cd m gs [] []"
    by (simp add: getFiles_def l)
  note grp = getFiles_locations_grouped [OF l]
  show "distinct (map fst gs)" by (rule grp(1))
  show "set (map fst gs) = archiveHash ` set (resolved_locations c ks)" by (rule grp(2))
  show f0: "fetched (getFiles fetch cd c ks) =
        map fst (take (Suc (length (takeWhile (group_ok fetch cd) gs))) gs)"
    unfolding run fetch_groups_run by simp
  show "distinct (fetched (getFiles fetch cd c ks))"
    unfolding f0 take_map [symmetric] using grp(1) by (rule distinct_take)
  show "delivered (getFiles fetch cd c ks) =
        concat (map (group_pairs fetch cd m)
          (take (Suc (length (takeWhile (group_ok fetch cd) gs))) gs))"
    unfolding run fetch_groups_run by simp
  {
    fix h locs assume "(h, locs) \<in> set gs"
    then show "locs = filter (\<lambda>loc. archiveHash loc = h) (resolved_locations c ks)"
      by (rule grp(3))
  }
  {
    assume ok: "list_all (group_ok fetch cd) gs"
    then have tw: "takeWhile (group_ok fetch cd) gs = gs"
      by (simp add: list_all_iff)
    show "thrown (getFiles fetch cd c ks) = None"
      unfolding run fetch_groups_run using ok by simp
    show f: "fetched (getFiles fetch cd c ks) = map fst gs"
      unfolding run fetch_groups_run tw by simp
    have "card (set (map fst gs)) = length (map fst gs)"
      using grp(1) by (rule distinct_card)
    then show "length (fetched (getFiles fetch cd c ks)) =
           card (archiveHash ` set (resolved_locations c ks))"
      unfolding f grp(2) by simp
  }
  {
    assume "\<not> list_all (group_ok fetch cd) gs"
    then show "thrown (getFiles fetch cd c ks) =
           Some (group_error fetch cd (gs ! length (takeWhile (group_ok fetch cd) gs)))"
      unfolding run fetch_groups_run by simp
  }
qed

theorem getFiles_fetches_each_archive_once_witness:
  "thrown (getFiles batch_fetch no_codecs batch_client [''k1'', ''k2'', ''k3'']) = None \<and>
   fetched (getFiles batch_fetch no_codecs batch_client [''k1'', ''k2'', ''k3'']) =
     [''a1'', ''b2''] \<and>
   delivered (getFiles batch_fetch no_codecs batch_client [''k1'', ''k2'', ''k3'']) =
     [(''k1'', ascii ''hello''), (''k3'', ascii ''world''), (''k2'', ascii ''hello'')] \<and>
   card (archiveHash ` set (resolved_locations batch_client [''k1'', ''k2'', ''k3''])) = 2 \<and>
   thrown (getFiles (\<lambda>h. if h = ''a1'' then batch_fetch h else None) no_codecs batch_client
             [''k1'', ''k2'', ''k3'']) = Some (ErrorGettingDataBlock ''b2'') \<and>
   fetched (getFiles (\<lambda>h. if h = ''a1'' then batch_fetch h else None) no_codecs batch_client
             [''k1'', ''k2'', ''k3'']) = [''a1'', ''b2''] \<and>
   delivered (getFiles (\<lambda>h. if h = ''a1'' then batch_fetch h else None) no_codecs batch_client
             [''k1'', ''k2'', ''k3'']) = [(''k1'', ascii ''hello''), (''k3'', ascii ''world'')]"
proof -
  let ?ks = "[''k1'', ''k2'', ''k3'']"
  let ?m = "[''k1'' \<mapsto> ''k1'', ''k2'' \<mapsto> ''k2'', ''k3'' \<mapsto> ''k3'']"
  let ?gs = "[(''a1'', [batch_location ''k1'' ''a1'' 0, batch_location ''k3'' ''a1'' 42]),
              (''b2'', [batch_location ''k2'' ''b2'' 0])]"
  let ?f = "\<lambda>h. if h = ''a1'' then batch_fetch h else None"
  have ok1: "group_ok batch_fetch no_codecs (''a1'', [batch_location ''k1'' ''a1'' 0,
      batch_location ''k3'' ''a1'' 42])"
    by (simp add: group_ok_def batch_fetch_def slice_ok_def batch_slices
        decode_hello_container decode_world_container)
  have ok2: "group_ok batch_fetch no_codecs (''b2'', [batch_location ''k2'' ''b2'' 0])"
    by (simp add: group_ok_def batch_fetch_def slice_ok_def batch_slices
        decode_hello_container)
  have ok1': "group_ok ?f no_codecs (''a1'', [batch_location ''k1'' ''a1'' 0,
      batch_location ''k3'' ''a1'' 42])"
    by (simp add: group_ok_def batch_fetch_def slice_ok_def batch_slices
        decode_hello_container decode_world_container)
  have bad2: "\<not> group_ok ?f no_codecs (''b2'', [batch_location ''k2'' ''b2'' 0])"
    by (simp add: group_ok_def)
  have p1: "group_pairs fetch' no_codecs ?m (''a1'', [batch_location ''k1'' ''a1'' 0,
      batch_location ''k3'' ''a1'' 42]) = [(''k1'', ascii ''hello''), (''k3'', ascii ''world'')]"
    if "fetch' ''a1'' = Some (hello_container @ world_container)" for fetch'
    using that
    by (simp add: group_pairs_def slice_ok_def batch_slices
        decode_hello_container decode_world_container originalCKey_def eKey_batch_location)
  have p2: "group_pairs batch_fetch no_codecs ?m (''b2'', [batch_location ''k2'' ''b2'' 0]) =
      [(''k2'', ascii ''hello'')]"
    by (simp add: group_pairs_def batch_fetch_def slice_ok_def batch_slices
        decode_hello_container originalCKey_def eKey_batch_location)
  have p2': "group_pairs ?f no_codecs ?m (''b2'', [batch_location ''k2'' ''b2'' 0]) = []"
    by (simp add: group_pairs_def)
  have a1: "batch_fetch ''a1'' = Some (hello_container @ world_container)"
    and a1': "?f ''a1'' = Some (hello_container @ world_container)"
    by (simp_all add: batch_fetch_def)
  note good = getFiles_fetches_each_archive_once
    [where c = batch_client and ks = ?ks and fetch = batch_fetch and cd = no_codecs,
     THEN conjunct2, rule_format, OF getFiles_locations_batch]
  note bad = getFiles_fetches_each_archive_once
    [where c = batch_client and ks = ?ks and fetch = ?f and cd = no_codecs,
     THEN conjunct2, rule_format, OF getFiles_locations_batch]
  have all_ok: "list_all (group_ok batch_fetch no_codecs) ?gs"
    using ok1 ok2 by simp
  have tw: "takeWhile (group_ok batch_fetch no_codecs) ?gs = ?gs"
    using ok1 ok2 by simp
  have not_ok: "\<not> list_all (group_ok ?f no_codecs) ?gs"
    using bad2 by simp
  have tw': "takeWhile (group_ok ?f no_codecs) ?gs =
      [(''a1'', [batch_location ''k1'' ''a1'' 0, batch_location ''k3'' ''a1'' 42])]"
    using ok1' bad2 by simp
  from good have
    g4: "fetched (getFiles batch_fetch no_codecs batch_client ?ks) =
        map fst (take (Suc (length (takeWhile (group_ok batch_fetch no_codecs) ?gs))) ?gs)" and
    g5: "delivered (getFiles batch_fetch no_codecs batch_client ?ks) =
        concat (map (group_pairs batch_fetch no_codecs ?m)
          (take (Suc (length (takeWhile (group_ok batch_fetch no_codecs) ?gs))) ?gs))" and
    g6: "list_all (group_ok batch_fetch no_codecs) ?gs \<longrightarrow>
         thrown (getFiles batch_fetch no_codecs batch_client ?ks) = None \<and>
         fetched (getFiles batch_fetch no_codecs batch_client ?ks) = map fst ?gs \<and>
         length (fetched (getFiles batch_fetch no_codecs batch_client ?ks)) =
           card (archiveHash ` set (resolved_locations batch_client ?ks))"
    by blast+
  from bad have
    b4: "fetched (getFiles ?f no_codecs batch_client ?ks) =
        map fst (take (Suc (length (takeWhile (group_ok ?f no_codecs) ?gs))) ?gs)" and
    b5: "delivered (getFiles ?f no_codecs batch_client ?ks) =
        concat (map (group_pairs ?f no_codecs ?m)
          (take (Suc (length (takeWhile (group_ok ?f no_codecs) ?gs))) ?gs))" and
    b7: "\<not> list_all (group_ok ?f no_codecs) ?gs \<longrightarrow>
         thrown (getFiles ?f no_codecs batch_client ?ks) =
           Some (group_error ?f no_codecs (?gs ! length (takeWhile (group_ok ?f no_codecs) ?gs)))"
    by blast+
  have 1: "thrown (getFiles batch_fetch no_codecs batch_client ?ks) = None"
    using g6 all_ok by blast
  have 2: "fetched (getFiles batch_fetch no_codecs batch_client ?ks) = [''a1'', ''b2'']"
    unfolding g4 tw by simp
  have 3: "delivered (getFiles batch_fetch no_codecs batch_client ?ks) =
      [(''k1'', ascii ''hello''), (''k3'', ascii ''world''), (''k2'', ascii ''hello'')]"
    unfolding g5 tw by (simp add: p1 [where fetch' = batch_fetch, OF a1] p2)
  have 5: "thrown (getFiles ?f no_codecs batch_client ?ks) = Some (ErrorGettingDataBlock ''b2'')"
    using b7 not_ok unfolding tw' by (simp add: group_error_def)
  have 6: "fetched (getFiles ?f no_codecs batch_client ?ks) = [''a1'', ''b2'']"
    unfolding b4 tw' by simp
  have 7: "delivered (getFiles ?f no_codecs batch_client ?ks) =
      [(''k1'', ascii ''hello''), (''k3'', ascii ''world'')]"
    unfolding b5 tw' by (simp add: p1 [where fetch' = ?f, OF a1'] p2')
  from 1 2 3 card_archives_batch 5 6 7 show ?thesis by blast
qed

text \<open>
  C9, as stated, fails: when the fetch of the first archive fails the call throws after
  one fetch, while the resolved locations lie in two distinct archives.
\<close>

theorem getFiles_failed_fetch_stops:
  "getFiles (\<lambda>h. None) no_codecs batch_client [''k1'', ''k2'', ''k3''] =
     \<lparr>thrown = Some (ErrorGettingDataBlock ''a1''), delivered = [], fetched = [''a1'']\<rparr> \<and>
   card (archiveHash ` set (resolved_locations batch_client [''k1'', ''k2'', ''k3''])) = 2"
  by (simp add: getFiles_def getFiles_locations_batch card_archives_batch)

end
